theory Spec2Isabelle
  imports Main
begin

chapter \<open>The model\<close>

section \<open>The collaborative canvas component\<close>

text \<open>
  The component \<^verbatim>\<open>CollaborativeCanvas\<close> keeps a tldraw store in step with the peers of a
  project room. Its mutable cells are React refs and one closure variable; its effects are
  socket emissions, \<^verbatim>\<open>fetch\<close> requests and timers. The model threads one state record
  through the handlers. Time is counted in milliseconds; a pending \<^verbatim>\<open>setTimeout\<close> is an
  entry \<open>(id, due, callback)\<close> of the timer table.
\<close>

subsection \<open>Data\<close>

type_synonym rec_id = string

record canvas_rec =
  rid :: rec_id
  body :: string

text \<open>
  A change set as the store reports it and as \<^verbatim>\<open>canvas:update\<close> carries it: three objects
  keyed by record id. An object is an association list in key order; \<^verbatim>\<open>updated\<close> maps an id
  to the pair \<open>[from, to]\<close>.
\<close>

record changes =
  added :: "(rec_id \<times> canvas_rec) list"
  updated :: "(rec_id \<times> canvas_rec \<times> canvas_rec) list"
  removed :: "(rec_id \<times> canvas_rec) list"

text \<open>
  The payload \<^verbatim>\<open>handleCanvasUpdate\<close> reads: each of \<^verbatim>\<open>data.added\<close>,
  \<^verbatim>\<open>data.updated\<close>, \<^verbatim>\<open>data.removed\<close> may be absent (\<open>None\<close>).
\<close>

record remote_data =
  d_added :: "(rec_id \<times> canvas_rec) list option"
  d_updated :: "(rec_id \<times> canvas_rec \<times> canvas_rec) list option"
  d_removed :: "(rec_id \<times> canvas_rec) list option"

type_synonym point = "int \<times> int"

type_synonym canvas_store = "rec_id \<rightharpoonup> canvas_rec"

datatype message =
  CanvasUpdateMsg string changes
  | CanvasCursorMsg string point
  | JoinProjectMsg string
  | LeaveProjectMsg string

datatype callback = SaveCallback | ResetRemoteFlag | BroadcastCursor

type_synonym timer = "nat \<times> nat \<times> callback"

record canvas_state =
  projectId :: string
  editor :: bool
  linked :: bool
  store :: canvas_store
  currentPagePoint :: "point option"
  isSavingRef :: bool
  isRemoteUpdateRef :: bool
  saveTimeoutRef :: "nat option"
  cursorTimeout :: "nat option"
  timers :: "timer list"
  next_timer :: nat
  clock :: nat
  emitted :: "(nat \<times> message) list"
  posts :: "(nat \<times> canvas_store) list"
  in_flight :: nat

text \<open>
  \<open>editor\<close> is \<^verbatim>\<open>editor !== null\<close>; \<open>linked\<close> is \<^verbatim>\<open>socket && isConnected\<close>.
  \<open>emitted\<close> logs every \<^verbatim>\<open>socket.emit\<close> with its time, \<open>posts\<close> every
  \<^verbatim>\<open>POST /api/projects/:id/canvas\<close> with its time and the snapshot sent, and
  \<open>in_flight\<close> counts the requests issued and not yet settled.
\<close>

subsection \<open>Timers and emissions\<close>

definition t_id :: "timer \<Rightarrow> nat" where
  "t_id tm = fst tm"

definition t_due :: "timer \<Rightarrow> nat" where
  "t_due tm = fst (snd tm)"

definition t_cb :: "timer \<Rightarrow> callback" where
  "t_cb tm = snd (snd tm)"

definition setTimeout :: "callback \<Rightarrow> nat \<Rightarrow> canvas_state \<Rightarrow> canvas_state" where
  "setTimeout cb delay s =
     s\<lparr>timers := timers s @ [(next_timer s, clock s + delay, cb)],
       next_timer := Suc (next_timer s)\<rparr>"

definition clearTimeout :: "nat \<Rightarrow> canvas_state \<Rightarrow> canvas_state" where
  "clearTimeout i s = s\<lparr>timers := filter (\<lambda>tm. t_id tm \<noteq> i) (timers s)\<rparr>"

definition emit :: "message \<Rightarrow> canvas_state \<Rightarrow> canvas_state" where
  "emit m s = s\<lparr>emitted := emitted s @ [(clock s, m)]\<rparr>"

subsection \<open>The store\<close>

definition store_put :: "canvas_rec \<Rightarrow> canvas_store \<Rightarrow> canvas_store" where
  "store_put r st = st(rid r \<mapsto> r)"

definition store_remove :: "rec_id \<Rightarrow> canvas_store \<Rightarrow> canvas_store" where
  "store_remove i st = st(i := None)"

text \<open>
  The body of the \<^verbatim>\<open>mergeRemoteChanges\<close> callback: put every added record, put the new
  half of every updated pair, remove every removed id; an absent object is skipped.
\<close>

definition apply_remote :: "remote_data \<Rightarrow> canvas_store \<Rightarrow> canvas_store" where
  "apply_remote d st =
     (let st1 = (case d_added d of None \<Rightarrow> st
                 | Some a \<Rightarrow> fold (\<lambda>kv. store_put (snd kv)) a st);
          st2 = (case d_updated d of None \<Rightarrow> st1
                 | Some u \<Rightarrow> fold (\<lambda>kv. store_put (snd (snd kv))) u st1)
      in (case d_removed d of None \<Rightarrow> st2
          | Some r \<Rightarrow> fold (\<lambda>kv. store_remove (fst kv)) r st2))"

text \<open>
  A user edit changes the store inside tldraw, outside this repository; the change set it
  reports is read the same way.
\<close>

definition apply_local :: "changes \<Rightarrow> canvas_store \<Rightarrow> canvas_store" where
  "apply_local c st =
     fold (\<lambda>kv. store_remove (fst kv)) (removed c)
       (fold (\<lambda>kv. store_put (snd (snd kv))) (updated c)
         (fold (\<lambda>kv. store_put (snd kv)) (added c) st))"

definition nonempty_changes :: "changes \<Rightarrow> bool" where
  "nonempty_changes c = (added c \<noteq> [] \<or> updated c \<noteq> [] \<or> removed c \<noteq> [])"

subsection \<open>Handlers\<close>

text \<open>
  \<^verbatim>\<open>saveCanvasState\<close> up to its \<^verbatim>\<open>await fetch\<close>: it returns at once when the editor is
  absent or a save is running, and otherwise raises the flag and posts the snapshot of
  all records. The \<^verbatim>\<open>finally\<close> block runs when the request settles, fulfilled or
  rejected alike (a rejection is caught and logged); \<open>saveSettled\<close> is that moment.
\<close>

definition saveCanvasState :: "canvas_state \<Rightarrow> canvas_state" where
  "saveCanvasState s =
     (if \<not> editor s \<or> isSavingRef s then s
      else s\<lparr>isSavingRef := True,
             posts := posts s @ [(clock s, store s)],
             in_flight := Suc (in_flight s)\<rparr>)"

definition saveSettled :: "canvas_state \<Rightarrow> canvas_state" where
  "saveSettled s =
     (if in_flight s = 0 then s
      else s\<lparr>isSavingRef := False, in_flight := in_flight s - 1\<rparr>)"

definition handleChange :: "changes \<Rightarrow> canvas_state \<Rightarrow> canvas_state" where
  "handleChange c s =
     (if isRemoteUpdateRef s then s
      else if nonempty_changes c then
        (let s1 = emit (CanvasUpdateMsg (projectId s) c) s;
             s2 = (case saveTimeoutRef s1 of None \<Rightarrow> s1 | Some i \<Rightarrow> clearTimeout i s1);
             s3 = setTimeout SaveCallback 3000 s2
         in s3\<lparr>saveTimeoutRef := Some (next_timer s2)\<rparr>)
      else s)"

text \<open>
  \<^verbatim>\<open>handleCanvasUpdate\<close>: the flag is raised first, the changes are merged, and the
  \<^verbatim>\<open>finally\<close> block schedules the reset 100 ms later. \<open>notes\<close> are the change entries,
  if any, that pass the listener's filter while the merge runs. An exception of the merge is
  caught and logged; the flag and the timer are set whether it throws or not, and the
  model follows the merge that does not throw.
\<close>

definition handleCanvasUpdate :: "remote_data \<Rightarrow> changes list \<Rightarrow> canvas_state \<Rightarrow> canvas_state" where
  "handleCanvasUpdate d notes s =
     (let s1 = s\<lparr>isRemoteUpdateRef := True\<rparr>;
          s2 = s1\<lparr>store := apply_remote d (store s1)\<rparr>;
          s3 = fold handleChange notes s2
      in setTimeout ResetRemoteFlag 100 s3)"

definition broadcastCursor :: "canvas_state \<Rightarrow> canvas_state" where
  "broadcastCursor s =
     (case currentPagePoint s of
        None \<Rightarrow> s
      | Some p \<Rightarrow> emit (CanvasCursorMsg (projectId s) p) s)"

definition handlePointerMove :: "canvas_state \<Rightarrow> canvas_state" where
  "handlePointerMove s =
     (let s1 = (case cursorTimeout s of None \<Rightarrow> s | Some i \<Rightarrow> clearTimeout i s);
          s2 = setTimeout BroadcastCursor 100 s1
      in s2\<lparr>cursorTimeout := Some (next_timer s1)\<rparr>)"

subsection \<open>The passage of time\<close>

fun fire :: "callback \<Rightarrow> canvas_state \<Rightarrow> canvas_state" where
  "fire SaveCallback s = saveCanvasState s"
| "fire ResetRemoteFlag s = s\<lparr>isRemoteUpdateRef := False\<rparr>"
| "fire BroadcastCursor s = broadcastCursor s"

text \<open>
  One millisecond passes: the clock moves, and every timer that has fallen due leaves the
  table and runs, in the order the timers were created.
\<close>

definition fire_all :: "timer list \<Rightarrow> canvas_state \<Rightarrow> canvas_state" where
  "fire_all due s = fold (\<lambda>tm. fire (t_cb tm)) due s"

definition tick :: "canvas_state \<Rightarrow> canvas_state" where
  "tick s =
     (let t = Suc (clock s);
          due = filter (\<lambda>tm. t_due tm \<le> t) (timers s);
          rest = filter (\<lambda>tm. \<not> t_due tm \<le> t) (timers s)
      in fire_all due (s\<lparr>clock := t, timers := rest\<rparr>))"

primrec elapse :: "nat \<Rightarrow> canvas_state \<Rightarrow> canvas_state" where
  "elapse 0 s = s"
| "elapse (Suc n) s = elapse n (tick s)"

subsection \<open>Effects and events\<close>

text \<open>
  The four effects that depend on \<^verbatim>\<open>socket\<close>, \<^verbatim>\<open>isConnected\<close> and \<^verbatim>\<open>editor\<close> run
  when all three are present and are cleaned up, in the order they are declared, when
  one of them goes away: the change listener (which clears the save timer), the
  \<^verbatim>\<open>canvas:update\<close> listener, the pointer listener (which clears the cursor timer) and
  the room membership (which leaves and saves one final time).
\<close>

definition active :: "canvas_state \<Rightarrow> bool" where
  "active s = (editor s \<and> linked s)"

definition effects_setup :: "canvas_state \<Rightarrow> canvas_state" where
  "effects_setup s = emit (JoinProjectMsg (projectId s)) (s\<lparr>cursorTimeout := None\<rparr>)"

definition effects_cleanup :: "canvas_state \<Rightarrow> canvas_state" where
  "effects_cleanup s =
     (let s1 = (case saveTimeoutRef s of None \<Rightarrow> s | Some i \<Rightarrow> clearTimeout i s);
          s2 = (case cursorTimeout s1 of None \<Rightarrow> s1 | Some i \<Rightarrow> clearTimeout i s1);
          s3 = emit (LeaveProjectMsg (projectId s2)) s2
      in saveCanvasState s3)"

text \<open>
  The store files every change under a source: \<^verbatim>\<open>user\<close> for what is done in this browser,
  \<^verbatim>\<open>remote\<close> for what runs inside \<^verbatim>\<open>mergeRemoteChanges\<close>. The component subscribes
  \<^verbatim>\<open>handleChange\<close> with the filter \<^verbatim>\<open>{scope: 'document', source: 'user'}\<close>.
\<close>

datatype change_source = UserSource | RemoteSource

datatype canvas_event =
  EditorMounted
  | Connected
  | Disconnected
  | UserEdit changes
  | StoreNotify change_source changes
  | CanvasUpdate remote_data "changes list"
  | PointerMove point
  | SaveSettled
  | Elapse nat

text \<open>
  \<open>UserEdit\<close> is an edit made in this browser: tldraw changes the store and notifies the
  listener. \<open>StoreNotify\<close> is the store reporting a change entry of the given source, whenever it
  chooses to; the subscription passes it on to the listener only when the source is
  \<^verbatim>\<open>user\<close>. \<open>PointerMove\<close> is a pointer event: tldraw records the position and the
  component's listener runs. A handler runs only while its effect is set up.
\<close>

fun canvas_step :: "canvas_event \<Rightarrow> canvas_state \<Rightarrow> canvas_state" where
  "canvas_step EditorMounted s =
     (if editor s then s
      else if linked s then effects_setup (s\<lparr>editor := True\<rparr>)
      else s\<lparr>editor := True\<rparr>)"
| "canvas_step Connected s =
     (if linked s then s
      else if editor s then effects_setup (s\<lparr>linked := True\<rparr>)
      else s\<lparr>linked := True\<rparr>)"
| "canvas_step Disconnected s =
     (if \<not> linked s then s
      else if editor s then (effects_cleanup s)\<lparr>linked := False\<rparr>
      else s\<lparr>linked := False\<rparr>)"
| "canvas_step (UserEdit c) s =
     (let s1 = s\<lparr>store := apply_local c (store s)\<rparr>
      in if active s then handleChange c s1 else s1)"
| "canvas_step (StoreNotify src c) s =
     (if active s \<and> src = UserSource then handleChange c s else s)"
| "canvas_step (CanvasUpdate d notes) s =
     (if active s then handleCanvasUpdate d notes s else s)"
| "canvas_step (PointerMove p) s =
     (let s1 = s\<lparr>currentPagePoint := Some p\<rparr>
      in if active s then handlePointerMove s1 else s1)"
| "canvas_step SaveSettled s = saveSettled s"
| "canvas_step (Elapse n) s = elapse n s"

definition canvas_run :: "canvas_event list \<Rightarrow> canvas_state \<Rightarrow> canvas_state" where
  "canvas_run es s = fold canvas_step es s"

definition canvas_init :: "string \<Rightarrow> canvas_state" where
  "canvas_init p =
     \<lparr>projectId = p, editor = False, linked = False, store = Map.empty,
      currentPagePoint = None, isSavingRef = False, isRemoteUpdateRef = False,
      saveTimeoutRef = None, cursorTimeout = None, timers = [], next_timer = 1,
      clock = 0, emitted = [], posts = [], in_flight = 0\<rparr>"

definition updates_of :: "canvas_state \<Rightarrow> (nat \<times> changes) list" where
  "updates_of s =
     concat (map (\<lambda>(t, m). case m of CanvasUpdateMsg p c \<Rightarrow> [(t, c)] | _ \<Rightarrow> []) (emitted s))"

definition cursors_of :: "canvas_state \<Rightarrow> (nat \<times> point) list" where
  "cursors_of s =
     concat (map (\<lambda>(t, m). case m of CanvasCursorMsg p q \<Rightarrow> [(t, q)] | _ \<Rightarrow> []) (emitted s))"

text \<open>The timers still pending for one callback.\<close>

definition pending :: "callback \<Rightarrow> canvas_state \<Rightarrow> timer list" where
  "pending cb s = filter (\<lambda>tm. t_cb tm = cb) (timers s)"

subsection \<open>Bursts and the invariant\<close>

text \<open>
  Every pending save timer is the one \<^verbatim>\<open>saveTimeoutRef\<close> remembers, every pending
  cursor timer the one \<^verbatim>\<open>cursorTimeout\<close> remembers (and the effects are then set up),
  and the count of requests in flight agrees with \<^verbatim>\<open>isSavingRef\<close>.
\<close>

definition canvas_inv :: "canvas_state \<Rightarrow> bool" where
  "canvas_inv s =
     ((\<forall>tm \<in> set (timers s).
         (t_cb tm = SaveCallback \<longrightarrow> saveTimeoutRef s = Some (t_id tm)) \<and>
         (t_cb tm = BroadcastCursor \<longrightarrow> cursorTimeout s = Some (t_id tm) \<and> active s))
      \<and> in_flight s = (if isSavingRef s then 1 else 0))"



primrec ptr_tail :: "(nat \<times> point) list \<Rightarrow> canvas_event list" where
  "ptr_tail [] = []"
| "ptr_tail (gp # rest) = Elapse (fst gp) # PointerMove (snd gp) # ptr_tail rest"

text \<open>
  The events that hand a user-sourced change entry to the listener: an edit made in this
  browser, and a report of the store filed under source \<^verbatim>\<open>user\<close>.
\<close>

fun user_sourced :: "canvas_event \<Rightarrow> bool" where
  "user_sourced (UserEdit c) = True"
| "user_sourced (StoreNotify UserSource c) = True"
| "user_sourced _ = False"

section \<open>The socket hook\<close>

text \<open>
  \<^verbatim>\<open>useSocket\<close> (src/hooks/use-socket.ts) owns the React state of one connection: the
  socket handle, the connection flags, the presence list and the heartbeat interval. The
  socket itself is a singleton kept by \<^verbatim>\<open>lib/socket.ts\<close>; the hook sees it through
  \<^verbatim>\<open>socketInstance.connected\<close> and through the events it listens to.
\<close>

subsection \<open>Data\<close>

record active_user =
  userId :: string
  userName :: string
  userImage :: "string option"
  joinedAt :: string

datatype hook_msg = JoinProject string | LeaveProject string | Ping

datatype handle = SocketInstance

type_synonym interval = "nat \<times> nat \<times> nat"

record hook_state =
  opt_projectId :: "string option"
  socket :: "handle option"
  isConnected :: bool
  isReconnecting :: bool
  activeUsers :: "active_user list"
  userCount :: int
  lastPing :: "string option"
  reconnectTimeoutRef :: "nat option"
  pingIntervalRef :: "nat option"
  listening :: bool
  roomJoined :: bool
  sock_connected :: bool
  reconnect_scheduled :: bool
  intervals :: "interval list"
  hk_next_timer :: nat
  hk_clock :: nat
  sent :: "(nat \<times> hook_msg) list"

text \<open>
  \<open>opt_projectId\<close> is \<^verbatim>\<open>options.projectId\<close>. \<open>listening\<close> holds between a run of the
  connection effect and its cleanup, while the nine listeners are registered;
  \<open>roomJoined\<close> holds while the room effect has a cleanup to run. \<open>sock_connected\<close> is
  \<^verbatim>\<open>socketInstance.connected\<close>. An entry \<open>(id, due, period)\<close> of \<open>intervals\<close> is a live
  \<^verbatim>\<open>setInterval\<close>. \<open>sent\<close> logs what the hook sends, with the time.
\<close>

subsection \<open>Timers and the socket module\<close>

definition send :: "hook_msg \<Rightarrow> hook_state \<Rightarrow> hook_state" where
  "send m s = s\<lparr>sent := sent s @ [(hk_clock s, m)]\<rparr>"

definition setInterval :: "nat \<Rightarrow> hook_state \<Rightarrow> hook_state" where
  "setInterval period s =
     s\<lparr>intervals := intervals s @ [(hk_next_timer s, hk_clock s + period, period)],
       hk_next_timer := Suc (hk_next_timer s)\<rparr>"

definition clearTimer :: "nat \<Rightarrow> hook_state \<Rightarrow> hook_state" where
  "clearTimer i s = s\<lparr>intervals := filter (\<lambda>iv. fst iv \<noteq> i) (intervals s)\<rparr>"

text \<open>
  Modelled from the spec: \<^verbatim>\<open>joinProject\<close> and \<^verbatim>\<open>leaveProject\<close> of \<^verbatim>\<open>lib/socket.ts\<close>, which
  is not among the sources. Section 6 gives the wire events \<^verbatim>\<open>join-project\<close> and
  \<^verbatim>\<open>leave-project\<close>, client to server, with the project id as payload.
\<close>

definition joinProject :: "string \<Rightarrow> hook_state \<Rightarrow> hook_state" where
  "joinProject p s = send (JoinProject p) s"

definition leaveProject :: "string \<Rightarrow> hook_state \<Rightarrow> hook_state" where
  "leaveProject p s = send (LeaveProject p) s"

text \<open>
  Modelled from the spec: \<^verbatim>\<open>disconnectSocket\<close> of \<^verbatim>\<open>lib/socket.ts\<close>, which is not among the
  sources. Section 4.6: an explicit user-initiated disconnect cancels any pending
  scheduled reconnection attempt; section 5: the backoff timer is cancelled on explicit
  close. \<open>reconnect_scheduled\<close> is that pending attempt of the reconnection controller.
\<close>

definition disconnectSocket :: "hook_state \<Rightarrow> hook_state" where
  "disconnectSocket s = s\<lparr>sock_connected := False, reconnect_scheduled := False\<rparr>"

text \<open>\<^verbatim>\<open>if (projectId)\<close>: an absent id and the empty string are both falsy.\<close>

definition with_projectId :: "(string \<Rightarrow> hook_state \<Rightarrow> hook_state) \<Rightarrow> hook_state \<Rightarrow> hook_state" where
  "with_projectId f s =
     (case opt_projectId s of None \<Rightarrow> s | Some p \<Rightarrow> if p = [] then s else f p s)"

subsection \<open>Listeners\<close>

definition pingCallback :: "hook_state \<Rightarrow> hook_state" where
  "pingCallback s = (if sock_connected s then send Ping s else s)"

definition onConnect :: "hook_state \<Rightarrow> hook_state" where
  "onConnect s =
     (let s1 = s\<lparr>isConnected := True, isReconnecting := False\<rparr>;
          s2 = with_projectId joinProject s1;
          s3 = (case pingIntervalRef s2 of None \<Rightarrow> s2 | Some i \<Rightarrow> clearTimer i s2);
          s4 = setInterval 30000 s3
      in s4\<lparr>pingIntervalRef := Some (hk_next_timer s3)\<rparr>)"

definition onDisconnect :: "string \<Rightarrow> hook_state \<Rightarrow> hook_state" where
  "onDisconnect reason s =
     (let s1 = s\<lparr>isConnected := False, isReconnecting := True\<rparr>
      in case pingIntervalRef s1 of None \<Rightarrow> s1 | Some i \<Rightarrow> clearTimer i s1)"

definition onReconnect :: "hook_state \<Rightarrow> hook_state" where
  "onReconnect s = with_projectId joinProject (s\<lparr>isReconnecting := False\<rparr>)"

definition onReconnectAttempt :: "hook_state \<Rightarrow> hook_state" where
  "onReconnectAttempt s = s\<lparr>isReconnecting := True\<rparr>"

definition onPong :: "string \<Rightarrow> hook_state \<Rightarrow> hook_state" where
  "onPong ts s = s\<lparr>lastPing := Some ts\<rparr>"

definition onUsersActive :: "active_user list \<Rightarrow> int \<Rightarrow> hook_state \<Rightarrow> hook_state" where
  "onUsersActive users n s = s\<lparr>activeUsers := users, userCount := n\<rparr>"

definition onUsersCount :: "int \<Rightarrow> hook_state \<Rightarrow> hook_state" where
  "onUsersCount n s = s\<lparr>userCount := n\<rparr>"

definition onUserJoined :: "active_user \<Rightarrow> hook_state \<Rightarrow> hook_state" where
  "onUserJoined u s =
     (if list_ex (\<lambda>v. userId v = userId u) (activeUsers s) then s
      else s\<lparr>activeUsers := activeUsers s @ [u]\<rparr>)"

definition onUserLeft :: "string \<Rightarrow> hook_state \<Rightarrow> hook_state" where
  "onUserLeft uid s = s\<lparr>activeUsers := filter (\<lambda>v. userId v \<noteq> uid) (activeUsers s)\<rparr>"

subsection \<open>Effects and callbacks\<close>

text \<open>
  The connection effect, past its guard on the session and \<^verbatim>\<open>autoConnect\<close>:
  \<^verbatim>\<open>connectSocket\<close> hands out the singleton, the listeners are registered and
  \<^verbatim>\<open>isConnected\<close> starts as \<^verbatim>\<open>socketInstance.connected\<close>. Its cleanup leaves the room
  while connected, clears both timer refs and removes the listeners.
\<close>

definition effect_run :: "hook_state \<Rightarrow> hook_state" where
  "effect_run s =
     s\<lparr>socket := Some SocketInstance, listening := True, isConnected := sock_connected s\<rparr>"

definition effect_cleanup :: "hook_state \<Rightarrow> hook_state" where
  "effect_cleanup s =
     (let s1 = (if sock_connected s then with_projectId leaveProject s else s);
          s2 = (case pingIntervalRef s1 of None \<Rightarrow> s1 | Some i \<Rightarrow> clearTimer i s1);
          s3 = (case reconnectTimeoutRef s2 of None \<Rightarrow> s2 | Some i \<Rightarrow> clearTimer i s2)
      in s3\<lparr>listening := False\<rparr>)"

text \<open>The room effect and its cleanup (the second \<^verbatim>\<open>useEffect\<close>).\<close>

definition room_effect_run :: "hook_state \<Rightarrow> hook_state" where
  "room_effect_run s =
     (if socket s = None \<or> \<not> sock_connected s then s
      else with_projectId (\<lambda>p t. (joinProject p t)\<lparr>roomJoined := True\<rparr>) s)"

definition room_effect_cleanup :: "hook_state \<Rightarrow> hook_state" where
  "room_effect_cleanup s =
     (if \<not> roomJoined s then s
      else (if sock_connected s then with_projectId leaveProject s else s)\<lparr>roomJoined := False\<rparr>)"

definition disconnect :: "hook_state \<Rightarrow> hook_state" where
  "disconnect s =
     (disconnectSocket s)\<lparr>socket := None, isConnected := False, activeUsers := [], userCount := 0\<rparr>"

subsection \<open>The passage of time and events\<close>

definition hook_tick :: "hook_state \<Rightarrow> hook_state" where
  "hook_tick s =
     (let t = Suc (hk_clock s);
          due = filter (\<lambda>iv. fst (snd iv) \<le> t) (intervals s);
          again = map (\<lambda>iv. if fst (snd iv) \<le> t
                             then (fst iv, fst (snd iv) + snd (snd iv), snd (snd iv)) else iv)
                    (intervals s)
      in fold (\<lambda>iv. pingCallback) due (s\<lparr>hk_clock := t, intervals := again\<rparr>))"

primrec hook_elapse :: "nat \<Rightarrow> hook_state \<Rightarrow> hook_state" where
  "hook_elapse 0 s = s"
| "hook_elapse (Suc n) s = hook_elapse n (hook_tick s)"

datatype hook_event =
  EffectRun
  | EffectCleanup
  | RoomEffectRun
  | RoomEffectCleanup
  | Connect
  | Disconnect string
  | Reconnect
  | ReconnectAttempt
  | Pong string
  | UsersActive "active_user list" int
  | UsersCount int
  | UserJoined active_user
  | UserLeft string
  | CallDisconnect
  | HElapse nat

text \<open>
  \<open>Connect\<close> is the socket's \<^verbatim>\<open>connect\<close> event, for the first connection or a later
  one; \<open>Disconnect\<close> is a transport drop, after which the reconnection controller
  schedules its attempts (section 4.6). \<open>Reconnect\<close> and \<open>ReconnectAttempt\<close> are calls of
  the listeners the hook registers under those names. \<open>CallDisconnect\<close> is the
  \<^verbatim>\<open>disconnect\<close> callback the hook returns; its \<^verbatim>\<open>reconnect\<close> callback only asks the
  socket to connect and changes nothing here. A listener runs only while it is
  registered.
\<close>

fun hook_step :: "hook_event \<Rightarrow> hook_state \<Rightarrow> hook_state" where
  "hook_step EffectRun s = (if listening s then s else effect_run s)"
| "hook_step EffectCleanup s = (if listening s then effect_cleanup s else s)"
| "hook_step RoomEffectRun s = (if roomJoined s then s else room_effect_run s)"
| "hook_step RoomEffectCleanup s = room_effect_cleanup s"
| "hook_step Connect s =
     (let s1 = s\<lparr>sock_connected := True, reconnect_scheduled := False\<rparr>
      in if listening s then onConnect s1 else s1)"
| "hook_step (Disconnect reason) s =
     (let s1 = s\<lparr>sock_connected := False, reconnect_scheduled := True\<rparr>
      in if listening s then onDisconnect reason s1 else s1)"
| "hook_step Reconnect s = (if listening s then onReconnect s else s)"
| "hook_step ReconnectAttempt s = (if listening s then onReconnectAttempt s else s)"
| "hook_step (Pong ts) s = (if listening s then onPong ts s else s)"
| "hook_step (UsersActive users n) s = (if listening s then onUsersActive users n s else s)"
| "hook_step (UsersCount n) s = (if listening s then onUsersCount n s else s)"
| "hook_step (UserJoined u) s = (if listening s then onUserJoined u s else s)"
| "hook_step (UserLeft uid) s = (if listening s then onUserLeft uid s else s)"
| "hook_step CallDisconnect s = disconnect s"
| "hook_step (HElapse n) s = hook_elapse n s"

definition hook_run :: "hook_event list \<Rightarrow> hook_state \<Rightarrow> hook_state" where
  "hook_run es s = fold hook_step es s"

text \<open>A hook before its first effect; \<open>conn\<close> tells whether the singleton is connected.\<close>

definition hook_init :: "string option \<Rightarrow> bool \<Rightarrow> hook_state" where
  "hook_init p conn =
     \<lparr>opt_projectId = p, socket = None, isConnected = False, isReconnecting = False,
      activeUsers = [], userCount = 0, lastPing = None, reconnectTimeoutRef = None,
      pingIntervalRef = None, listening = False, roomJoined = False,
      sock_connected = conn, reconnect_scheduled = False, intervals = [],
      hk_next_timer = 1, hk_clock = 0, sent = []\<rparr>"

definition joins_of :: "hook_state \<Rightarrow> string list" where
  "joins_of s = concat (map (\<lambda>(t, m). case m of JoinProject p \<Rightarrow> [p] | _ \<Rightarrow> []) (sent s))"

definition pings_of :: "hook_state \<Rightarrow> nat list" where
  "pings_of s = concat (map (\<lambda>(t, m). case m of Ping \<Rightarrow> [t] | _ \<Rightarrow> []) (sent s))"

subsection \<open>Invariant, waiting events, snapshots\<close>

text \<open>Every live interval is the one the ref remembers; no one sets the reconnect ref.\<close>

definition hook_inv :: "hook_state \<Rightarrow> bool" where
  "hook_inv s =
     (list_all (\<lambda>iv. pingIntervalRef s = Some (fst iv)) (intervals s)
      \<and> reconnectTimeoutRef s = None)"


definition remembered_room :: "hook_state \<Rightarrow> string list" where
  "remembered_room s =
     (case opt_projectId s of None \<Rightarrow> [] | Some p \<Rightarrow> if p = [] then [] else [p])"

text \<open>A users:active payload without two entries for one userId; any other event.\<close>

fun snapshot_ok :: "hook_event \<Rightarrow> bool" where
  "snapshot_ok (UsersActive users n) = distinct (map userId users)"
| "snapshot_ok _ = True"

section \<open>The server: presence, room registry and event relay\<close>

text \<open>
  Modelled from the spec: the gateway, the presence tracker, the registry and the relay
  live in \<^verbatim>\<open>server.js\<close>, which is not among the sources; every definition of this
  section follows sections 3, 4.2, 4.3 and 4.5 of the specification. A connection carries
  the identity the gateway attached to it.
\<close>

record connection =
  conn_id :: string
  conn_user :: active_user

text \<open>
  Modelled from the spec: the presence tracker of \<^verbatim>\<open>server.js\<close>, which is not among the
  sources. Section 4.3: \<^verbatim>\<open>users:active\<close> carries the full current list of
  distinct-by-userId presence entries of the room; the first connection of a user gives
  the entry.
\<close>

primrec dedup_users :: "active_user list \<Rightarrow> string list \<Rightarrow> active_user list" where
  "dedup_users [] seen = []"
| "dedup_users (u # us) seen =
     (if userId u \<in> set seen then dedup_users us seen
      else u # dedup_users us (userId u # seen))"

text \<open>
  Modelled from the spec: the \<^verbatim>\<open>users:active\<close> payload for a room with the given
  connections (\<^verbatim>\<open>server.js\<close> is missing), section 4.3.
\<close>

definition users_active :: "connection list \<Rightarrow> active_user list" where
  "users_active conns = dedup_users (map conn_user conns) []"

type_synonym conn = string

type_synonym room = string

record domain_event =
  ev_projectId :: room
  ev_kind :: string
  ev_body :: string

type_synonym registry = "room \<rightharpoonup> conn list"

text \<open>
  Modelled from the spec: the registry maps a project id to the connections in its room
  (\<^verbatim>\<open>server.js\<close> is missing), section 3; a room without members has no entry.
\<close>

definition members :: "registry \<Rightarrow> room \<Rightarrow> conn list" where
  "members reg r = (case reg r of None \<Rightarrow> [] | Some ms \<Rightarrow> ms)"

text \<open>
  Modelled from the spec: \<^verbatim>\<open>join\<close> of the room registry (\<^verbatim>\<open>server.js\<close> is missing).
  Section 4.2: idempotent; adds the connection to the room's member set, creating the
  room if absent.
\<close>

definition join :: "conn \<Rightarrow> room \<Rightarrow> registry \<Rightarrow> registry" where
  "join c r reg =
     (case reg r of
        None \<Rightarrow> reg(r \<mapsto> [c])
      | Some ms \<Rightarrow> if c \<in> set ms then reg else reg(r \<mapsto> ms @ [c]))"

text \<open>
  Modelled from the spec: what is left of a room when a connection goes (\<^verbatim>\<open>server.js\<close>
  is missing). Section 4.2: the connection is removed from the member set; if the
  resulting set is empty, the room entry is deleted.
\<close>

definition without :: "conn \<Rightarrow> conn list option \<Rightarrow> conn list option" where
  "without c entry =
     (case entry of
        None \<Rightarrow> None
      | Some ms \<Rightarrow> if removeAll c ms = [] then None else Some (removeAll c ms))"

text \<open>
  Modelled from the spec: \<^verbatim>\<open>leave\<close> and \<^verbatim>\<open>leaveAll\<close> of the room registry
  (\<^verbatim>\<open>server.js\<close> is missing). Section 4.2: \<^verbatim>\<open>leaveAll\<close> runs on disconnect and removes the
  connection from every room, as if \<^verbatim>\<open>leave\<close> were called for each.
\<close>

definition leave :: "conn \<Rightarrow> room \<Rightarrow> registry \<Rightarrow> registry" where
  "leave c r reg = reg(r := without c (reg r))"

definition leaveAll :: "conn \<Rightarrow> registry \<Rightarrow> registry" where
  "leaveAll c reg = (\<lambda>r. without c (reg r))"

text \<open>
  Modelled from the spec: the event relay (\<^verbatim>\<open>server.js\<close> is missing). Section 4.5: an
  event from a connection that is not a member of the project's room is dropped;
  otherwise it is forwarded verbatim to every other current member of that room. The
  result lists the deliveries, recipient first.
\<close>

definition relay :: "registry \<Rightarrow> conn \<Rightarrow> domain_event \<Rightarrow> (conn \<times> domain_event) list" where
  "relay reg c ev =
     (if c \<in> set (members reg (ev_projectId ev))
      then map (\<lambda>c'. (c', ev)) (filter (\<lambda>c'. c' \<noteq> c) (members reg (ev_projectId ev)))
      else [])"

datatype reg_op = Join conn room | Leave conn room | Drop conn

fun reg_step :: "reg_op \<Rightarrow> registry \<Rightarrow> registry" where
  "reg_step (Join c r) reg = join c r reg"
| "reg_step (Leave c r) reg = leave c r reg"
| "reg_step (Drop c) reg = leaveAll c reg"

definition reg_run :: "reg_op list \<Rightarrow> registry" where
  "reg_run ops = fold reg_step ops Map.empty"

definition received :: "conn \<Rightarrow> (conn \<times> domain_event) list \<Rightarrow> domain_event list" where
  "received c ds = map snd (filter (\<lambda>d. fst d = c) ds)"

section \<open>Sample inputs\<close>

definition demo_rec :: canvas_rec where
  "demo_rec = \<lparr>rid = ''shape:1'', body = ''rect''\<rparr>"

definition demo_changes :: changes where
  "demo_changes = \<lparr>added = [(''shape:1'', demo_rec)], updated = [], removed = []\<rparr>"

definition no_changes :: changes where
  "no_changes = \<lparr>added = [], updated = [], removed = []\<rparr>"

definition demo_state :: canvas_state where
  "demo_state = canvas_run [EditorMounted, Connected] (canvas_init ''proj-1'')"

definition saving_trace :: "canvas_event list" where
  "saving_trace = [EditorMounted, Connected, UserEdit demo_changes, Disconnected]"


definition demo_moves :: "(nat \<times> point) list" where
  "demo_moves = [(16, (10, 20)), (99, (30, 40))]"

definition demo_remote :: remote_data where
  "demo_remote = \<lparr>d_added = Some [(''shape:1'', demo_rec)], d_updated = None, d_removed = None\<rparr>"

definition overlap_trace :: "canvas_event list" where
  "overlap_trace = [CanvasUpdate demo_remote [], Elapse 50, CanvasUpdate demo_remote []]"

definition quiet_trace :: "canvas_event list" where
  "quiet_trace = overlap_trace @ [StoreNotify RemoteSource demo_changes, Elapse 200,
                                  PointerMove (3, 4), Elapse 100]"

definition alice :: active_user where
  "alice = \<lparr>userId = ''u-alice'', userName = ''Alice'', userImage = None, joinedAt = ''09:00''\<rparr>"

definition alice_again :: active_user where
  "alice_again = \<lparr>userId = ''u-alice'', userName = ''Alice'', userImage = None, joinedAt = ''09:05''\<rparr>"

definition bob :: active_user where
  "bob = \<lparr>userId = ''u-bob'', userName = ''Bob'', userImage = None, joinedAt = ''09:01''\<rparr>"

definition demo_conns :: "connection list" where
  "demo_conns = [\<lparr>conn_id = ''s1'', conn_user = alice\<rparr>, \<lparr>conn_id = ''s2'', conn_user = bob\<rparr>,
                 \<lparr>conn_id = ''s3'', conn_user = alice_again\<rparr>]"

definition presence_trace :: "hook_event list" where
  "presence_trace = [EffectRun, Connect, UsersActive [alice, bob] 2, UserJoined alice_again,
                     UserLeft ''u-bob'', UserJoined bob]"

definition settled_hook :: hook_state where
  "settled_hook = hook_run [EffectRun, Connect] (hook_init (Some ''proj-1'') False)"

definition remount_trace :: "hook_event list" where
  "remount_trace = [EffectRun, Connect, HElapse 30000, EffectCleanup, EffectRun, HElapse 60000]"

definition demo_ops :: "reg_op list" where
  "demo_ops = [Join ''A'' ''proj-1'', Join ''B'' ''proj-1'', Join ''C'' ''proj-2'',
               Join ''B'' ''proj-1'', Join ''D'' ''proj-1'', Leave ''D'' ''proj-1'']"

definition demo_event :: domain_event where
  "demo_event = \<lparr>ev_projectId = ''proj-1'', ev_kind = ''task:create'', ev_body = ''X''\<rparr>"

chapter \<open>Properties\<close>

section \<open>What a round of timer callbacks changes\<close>

lemma fire_all_Nil [simp]: "fire_all [] s = s"
  by (simp add: fire_all_def)

lemma fire_all_Cons [simp]: "fire_all (tm # due) s = fire_all due (fire (t_cb tm) s)"
  by (simp add: fire_all_def)

lemma tick_fire_all:
  "tick s = fire_all (filter (\<lambda>tm. t_due tm \<le> Suc (clock s)) (timers s))
     (s\<lparr>clock := Suc (clock s), timers := filter (\<lambda>tm. \<not> t_due tm \<le> Suc (clock s)) (timers s)\<rparr>)"
  by (simp add: tick_def Let_def)

lemma fire_frame [simp]:
  "timers (fire cb s) = timers s"
  "clock (fire cb s) = clock s"
  "next_timer (fire cb s) = next_timer s"
  "store (fire cb s) = store s"
  "editor (fire cb s) = editor s"
  "linked (fire cb s) = linked s"
  "projectId (fire cb s) = projectId s"
  "saveTimeoutRef (fire cb s) = saveTimeoutRef s"
  "cursorTimeout (fire cb s) = cursorTimeout s"
  "currentPagePoint (fire cb s) = currentPagePoint s"
  by (cases cb; simp add: saveCanvasState_def broadcastCursor_def emit_def split: option.split)+

lemma fire_all_frame [simp]:
  "timers (fire_all due s) = timers s"
  "clock (fire_all due s) = clock s"
  "next_timer (fire_all due s) = next_timer s"
  "store (fire_all due s) = store s"
  "editor (fire_all due s) = editor s"
  "linked (fire_all due s) = linked s"
  "projectId (fire_all due s) = projectId s"
  "saveTimeoutRef (fire_all due s) = saveTimeoutRef s"
  "cursorTimeout (fire_all due s) = cursorTimeout s"
  "currentPagePoint (fire_all due s) = currentPagePoint s"
  by (induction due arbitrary: s; simp)+


lemma fire_all_isSaving:
  "isSavingRef (fire_all due s) =
     (isSavingRef s \<or> ((\<exists>tm \<in> set due. t_cb tm = SaveCallback) \<and> editor s))"
proof (induction due arbitrary: s)
  case Nil
  then show ?case by simp
next
  case (Cons tm due)
  show ?case
    by (cases "t_cb tm") (auto simp: Cons saveCanvasState_def broadcastCursor_def emit_def split: option.split)
qed

lemma fire_all_in_flight:
  "in_flight (fire_all due s) =
     (if (\<exists>tm \<in> set due. t_cb tm = SaveCallback) \<and> editor s \<and> \<not> isSavingRef s
      then Suc (in_flight s) else in_flight s)"
proof (induction due arbitrary: s)
  case Nil
  then show ?case by simp
next
  case (Cons tm due)
  show ?case
    by (cases "t_cb tm") (auto simp: Cons saveCanvasState_def broadcastCursor_def emit_def split: option.split)
qed

lemma fire_all_flag:
  "isRemoteUpdateRef (fire_all due s) =
     (isRemoteUpdateRef s \<and> \<not> (\<exists>tm \<in> set due. t_cb tm = ResetRemoteFlag))"
proof (induction due arbitrary: s)
  case Nil
  then show ?case by simp
next
  case (Cons tm due)
  show ?case
    by (cases "t_cb tm") (auto simp: Cons saveCanvasState_def broadcastCursor_def emit_def split: option.split)
qed

lemma fire_all_emitted:
  "emitted (fire_all due s) =
     emitted s @
       (case currentPagePoint s of None \<Rightarrow> []
        | Some p \<Rightarrow> map (\<lambda>tm. (clock s, CanvasCursorMsg (projectId s) p))
            (filter (\<lambda>tm. t_cb tm = BroadcastCursor) due))"
proof (induction due arbitrary: s)
  case Nil
  then show ?case by (simp split: option.split)
next
  case (Cons tm due)
  show ?case
    by (cases "t_cb tm") (auto simp: Cons saveCanvasState_def broadcastCursor_def emit_def split: option.split)
qed

section \<open>What the passage of time changes\<close>

lemma tick_frame [simp]:
  "clock (tick s) = Suc (clock s)"
  "timers (tick s) = filter (\<lambda>tm. \<not> t_due tm \<le> Suc (clock s)) (timers s)"
  "next_timer (tick s) = next_timer s"
  "store (tick s) = store s"
  "editor (tick s) = editor s"
  "linked (tick s) = linked s"
  "projectId (tick s) = projectId s"
  "saveTimeoutRef (tick s) = saveTimeoutRef s"
  "cursorTimeout (tick s) = cursorTimeout s"
  "currentPagePoint (tick s) = currentPagePoint s"
  by (simp_all add: tick_fire_all)


lemma tick_isSaving:
  "isSavingRef (tick s) =
     (isSavingRef s \<or>
      ((\<exists>tm \<in> set (timers s). t_due tm \<le> Suc (clock s) \<and> t_cb tm = SaveCallback) \<and> editor s))"
  by (auto simp: tick_fire_all fire_all_isSaving)

lemma tick_in_flight:
  "in_flight (tick s) =
     (if (\<exists>tm \<in> set (timers s). t_due tm \<le> Suc (clock s) \<and> t_cb tm = SaveCallback)
         \<and> editor s \<and> \<not> isSavingRef s
      then Suc (in_flight s) else in_flight s)"
  by (auto simp: tick_fire_all fire_all_in_flight)

lemma tick_flag:
  "isRemoteUpdateRef (tick s) =
     (isRemoteUpdateRef s \<and>
      \<not> (\<exists>tm \<in> set (timers s). t_due tm \<le> Suc (clock s) \<and> t_cb tm = ResetRemoteFlag))"
  by (auto simp: tick_fire_all fire_all_flag)

lemma tick_emitted:
  "emitted (tick s) =
     emitted s @
       (case currentPagePoint s of None \<Rightarrow> []
        | Some p \<Rightarrow> map (\<lambda>tm. (Suc (clock s), CanvasCursorMsg (projectId s) p))
            (filter (\<lambda>tm. t_cb tm = BroadcastCursor)
               (filter (\<lambda>tm. t_due tm \<le> Suc (clock s)) (timers s))))"
  by (simp add: tick_fire_all fire_all_emitted split: option.split)

lemma elapse_Suc_right: "elapse (Suc n) s = tick (elapse n s)"
  by (induction n arbitrary: s) simp_all

lemma elapse_add: "elapse (m + n) s = elapse n (elapse m s)"
  by (induction m arbitrary: s) simp_all

lemma elapse_frame [simp]:
  "clock (elapse n s) = clock s + n"
  "next_timer (elapse n s) = next_timer s"
  "store (elapse n s) = store s"
  "editor (elapse n s) = editor s"
  "linked (elapse n s) = linked s"
  "projectId (elapse n s) = projectId s"
  "saveTimeoutRef (elapse n s) = saveTimeoutRef s"
  "cursorTimeout (elapse n s) = cursorTimeout s"
  "currentPagePoint (elapse n s) = currentPagePoint s"
  by (induction n arbitrary: s; simp)+

lemma elapse_timers:
  "timers (elapse n s) =
     (if n = 0 then timers s else filter (\<lambda>tm. \<not> t_due tm \<le> clock s + n) (timers s))"
proof (induction n)
  case 0
  then show ?case by simp
next
  case (Suc n)
  have step: "timers (elapse (Suc n) s) =
      filter (\<lambda>tm. \<not> t_due tm \<le> Suc (clock s + n)) (timers (elapse n s))"
    unfolding elapse_Suc_right by simp
  show ?case
  proof (cases "n = 0")
    case True
    then show ?thesis by simp
  next
    case False
    have "filter (\<lambda>tm. \<not> t_due tm \<le> Suc (clock s + n))
            (filter (\<lambda>tm. \<not> t_due tm \<le> clock s + n) (timers s))
        = filter (\<lambda>tm. \<not> t_due tm \<le> Suc (clock s + n)) (timers s)"
      by (simp, rule filter_cong) auto
    with False step Suc show ?thesis by simp
  qed
qed

lemma elapse_timers_subset: "set (timers (elapse n s)) \<subseteq> set (timers s)"
  by (auto simp: elapse_timers)

lemma elapse_flag_clear:
  "\<not> isRemoteUpdateRef s \<Longrightarrow> \<not> isRemoteUpdateRef (elapse n s)"
  by (induction n arbitrary: s) (simp_all add: tick_flag)


lemma elapse_cursor_quiet:
  assumes "\<forall>tm \<in> set (timers s). t_cb tm = BroadcastCursor \<longrightarrow> clock s + n < t_due tm"
  shows "emitted (elapse n s) = emitted s"
  using assms
proof (induction n arbitrary: s)
  case 0
  then show ?case by simp
next
  case (Suc n)
  have now: "filter (\<lambda>tm. t_cb tm = BroadcastCursor)
               (filter (\<lambda>tm. t_due tm \<le> Suc (clock s)) (timers s)) = []"
    using Suc.prems by (fastforce simp: filter_empty_conv)
  have "\<forall>tm \<in> set (timers (tick s)). t_cb tm = BroadcastCursor \<longrightarrow> clock (tick s) + n < t_due tm"
    using Suc.prems by auto
  from Suc.IH [OF this] now show ?case
    by (simp add: tick_emitted split: option.split)
qed

lemma updates_of_append:
  "updates_of (s\<lparr>emitted := emitted s @ ms\<rparr>) = updates_of s @ updates_of (s\<lparr>emitted := ms\<rparr>)"
  by (simp add: updates_of_def)

lemma tick_updates [simp]: "updates_of (tick s) = updates_of s"
  by (auto simp: updates_of_def tick_emitted split: option.split)

lemma elapse_updates [simp]: "updates_of (elapse n s) = updates_of s"
  by (induction n arbitrary: s) simp_all

lemma active_elapse [simp]: "active (elapse n s) = active s"
  by (simp add: active_def)

section \<open>An invariant of the component\<close>

lemma t_simps [simp]:
  "t_id (i, d, cb) = i" "t_due (i, d, cb) = d" "t_cb (i, d, cb) = cb"
  by (simp_all add: t_id_def t_due_def t_cb_def)

lemma canvas_inv_init: "canvas_inv (canvas_init p)"
  by (simp add: canvas_inv_def canvas_init_def)

lemma canvas_inv_saveCanvasState: "canvas_inv s \<Longrightarrow> canvas_inv (saveCanvasState s)"
  by (auto simp: canvas_inv_def saveCanvasState_def active_def)

lemma canvas_inv_handleChange: "canvas_inv s \<Longrightarrow> active s \<Longrightarrow> canvas_inv (handleChange c s)"
  by (auto simp: canvas_inv_def handleChange_def active_def emit_def setTimeout_def
      clearTimeout_def Let_def split: option.split)

lemma flag_handleChange [simp]: "isRemoteUpdateRef (handleChange c s) = isRemoteUpdateRef s"
  by (simp add: handleChange_def emit_def setTimeout_def clearTimeout_def Let_def split: option.split)

lemma handleChange_flagged: "isRemoteUpdateRef s \<Longrightarrow> handleChange c s = s"
  by (simp add: handleChange_def)

lemma fold_handleChange_flagged: "isRemoteUpdateRef s \<Longrightarrow> fold handleChange ns s = s"
  by (induction ns) (simp_all add: handleChange_flagged)

lemma canvas_inv_handleCanvasUpdate:
  "canvas_inv s \<Longrightarrow> canvas_inv (handleCanvasUpdate d notes s)"
  by (auto simp: canvas_inv_def handleCanvasUpdate_def fold_handleChange_flagged
      setTimeout_def active_def Let_def)

lemma canvas_inv_handlePointerMove:
  "canvas_inv s \<Longrightarrow> active s \<Longrightarrow> canvas_inv (handlePointerMove s)"
  by (auto simp: canvas_inv_def handlePointerMove_def active_def setTimeout_def
      clearTimeout_def Let_def split: option.split)

lemma canvas_inv_tick: "canvas_inv s \<Longrightarrow> canvas_inv (tick s)"
  by (auto simp: canvas_inv_def tick_isSaving tick_in_flight active_def)

lemma canvas_inv_elapse: "canvas_inv s \<Longrightarrow> canvas_inv (elapse n s)"
  by (induction n arbitrary: s) (simp_all add: canvas_inv_tick)

lemma canvas_inv_cleanup:
  "canvas_inv s \<Longrightarrow> canvas_inv ((effects_cleanup s)\<lparr>linked := False\<rparr>)"
  by (auto simp: canvas_inv_def effects_cleanup_def saveCanvasState_def emit_def
      clearTimeout_def active_def Let_def split: option.split)

lemma canvas_inv_setup:
  "canvas_inv s \<Longrightarrow> \<not> active s \<Longrightarrow> canvas_inv (effects_setup (s\<lparr>editor := True\<rparr>))"
  "canvas_inv s \<Longrightarrow> \<not> active s \<Longrightarrow> canvas_inv (effects_setup (s\<lparr>linked := True\<rparr>))"
  by (auto simp: canvas_inv_def effects_setup_def emit_def active_def)

lemma canvas_inv_step: "canvas_inv s \<Longrightarrow> canvas_inv (canvas_step e s)"
proof (cases e)
  case EditorMounted
  assume "canvas_inv s"
  then show ?thesis using EditorMounted canvas_inv_setup(1) [of s]
    by (auto simp: active_def) (auto simp: canvas_inv_def active_def)
next
  case Connected
  assume "canvas_inv s"
  then show ?thesis using Connected canvas_inv_setup(2) [of s]
    by (auto simp: active_def) (auto simp: canvas_inv_def active_def)
next
  case Disconnected
  assume "canvas_inv s"
  then show ?thesis using Disconnected canvas_inv_cleanup [of s]
    by auto (auto simp: canvas_inv_def active_def)
next
  case (UserEdit c)
  assume inv: "canvas_inv s"
  then have "canvas_inv (s\<lparr>store := apply_local c (store s)\<rparr>)"
    by (simp add: canvas_inv_def active_def)
  then show ?thesis using UserEdit canvas_inv_handleChange [of "s\<lparr>store := apply_local c (store s)\<rparr>" c]
    by (simp add: active_def Let_def)
next
  case (StoreNotify src c)
  assume "canvas_inv s"
  then show ?thesis using StoreNotify by (simp add: canvas_inv_handleChange)
next
  case (CanvasUpdate d ns)
  assume "canvas_inv s"
  then show ?thesis using CanvasUpdate by (simp add: canvas_inv_handleCanvasUpdate)
next
  case (PointerMove p)
  assume inv: "canvas_inv s"
  then have "canvas_inv (s\<lparr>currentPagePoint := Some p\<rparr>)"
    by (simp add: canvas_inv_def active_def)
  then show ?thesis using PointerMove canvas_inv_handlePointerMove [of "s\<lparr>currentPagePoint := Some p\<rparr>"]
    by (simp add: active_def Let_def)
next
  case SaveSettled
  assume "canvas_inv s"
  then show ?thesis using SaveSettled
    by (auto simp: canvas_inv_def saveSettled_def active_def split: if_splits)
next
  case (Elapse n)
  assume "canvas_inv s"
  then show ?thesis using Elapse by (simp add: canvas_inv_elapse)
qed

lemma canvas_run_Nil: "canvas_run [] s = s"
  by (simp add: canvas_run_def)

lemma canvas_run_Cons: "canvas_run (e # es) s = canvas_run es (canvas_step e s)"
  by (simp add: canvas_run_def)

lemma canvas_run_append: "canvas_run (es @ es') s = canvas_run es' (canvas_run es s)"
  by (simp add: canvas_run_def)

lemma canvas_inv_run: "canvas_inv s \<Longrightarrow> canvas_inv (canvas_run es s)"
  unfolding canvas_run_def
  by (induction es arbitrary: s) (simp_all add: canvas_inv_step)

lemma canvas_inv_reachable: "canvas_inv (canvas_run es (canvas_init p))"
  by (simp add: canvas_inv_run canvas_inv_init)

section \<open>Empty change sets and the single save in flight\<close>

lemma demo_state_eq:
  "demo_state = \<lparr>projectId = ''proj-1'', editor = True, linked = True, store = Map.empty,
      currentPagePoint = None, isSavingRef = False, isRemoteUpdateRef = False,
      saveTimeoutRef = None, cursorTimeout = None, timers = [], next_timer = 1,
      clock = 0, emitted = [(0, JoinProjectMsg ''proj-1'')], posts = [], in_flight = 0\<rparr>"
  by (simp add: demo_state_def canvas_run_def canvas_init_def effects_setup_def emit_def)

text \<open>
  C9. A change entry with no added, no updated and no removed record leaves the component
  as it was: nothing is emitted and the save timer is neither set nor reset. Whenever the
  listener does change anything, the change set was not empty (and no remote update was
  being applied); then it emits one canvas:update carrying the change set, cancels the
  save timer it remembers and sets a new one 3000 ms ahead.
\<close>

theorem C9_empty_changes_do_nothing:
  "(\<not> nonempty_changes c \<longrightarrow>
       handleChange c s = s \<and> canvas_step (StoreNotify src c) s = s)
   \<and> (handleChange c' s' \<noteq> s' \<longrightarrow>
       nonempty_changes c' \<and> \<not> isRemoteUpdateRef s'
       \<and> emitted (handleChange c' s') = emitted s' @ [(clock s', CanvasUpdateMsg (projectId s') c')]
       \<and> timers (handleChange c' s') =
           filter (\<lambda>tm. Some (t_id tm) \<noteq> saveTimeoutRef s') (timers s')
             @ [(next_timer s', clock s' + 3000, SaveCallback)]
       \<and> saveTimeoutRef (handleChange c' s') = Some (next_timer s'))"
proof -
  have 1: "\<not> nonempty_changes c \<longrightarrow>
      handleChange c s = s \<and> canvas_step (StoreNotify src c) s = s"
    by (simp add: handleChange_def)
  have 2: "handleChange c' s' \<noteq> s' \<longrightarrow> nonempty_changes c' \<and> \<not> isRemoteUpdateRef s'"
    by (auto simp: handleChange_def)
  have 3: "nonempty_changes c' \<and> \<not> isRemoteUpdateRef s' \<longrightarrow>
       emitted (handleChange c' s') = emitted s' @ [(clock s', CanvasUpdateMsg (projectId s') c')]
       \<and> timers (handleChange c' s') =
           filter (\<lambda>tm. Some (t_id tm) \<noteq> saveTimeoutRef s') (timers s')
             @ [(next_timer s', clock s' + 3000, SaveCallback)]
       \<and> saveTimeoutRef (handleChange c' s') = Some (next_timer s')"
    by (auto simp: handleChange_def emit_def setTimeout_def clearTimeout_def Let_def
        split: option.split intro: filter_cong)
  from 1 2 3 show ?thesis by blast
qed

theorem C9_witness:
  "\<not> nonempty_changes no_changes
   \<and> handleChange no_changes demo_state = demo_state
   \<and> canvas_step (StoreNotify UserSource no_changes) demo_state = demo_state
   \<and> handleChange demo_changes demo_state \<noteq> demo_state
   \<and> nonempty_changes demo_changes
   \<and> emitted (handleChange demo_changes demo_state) =
       [(0, JoinProjectMsg ''proj-1''), (0, CanvasUpdateMsg ''proj-1'' demo_changes)]
   \<and> timers (handleChange demo_changes demo_state) = [(1, 3000, SaveCallback)]"
proof -
  have a: "\<not> nonempty_changes no_changes"
    by (simp add: nonempty_changes_def no_changes_def)
  have b: "handleChange demo_changes demo_state \<noteq> demo_state"
  proof
    assume "handleChange demo_changes demo_state = demo_state"
    then have "timers (handleChange demo_changes demo_state) = timers demo_state" by simp
    then show False
      by (simp add: demo_state_eq handleChange_def nonempty_changes_def demo_changes_def
          emit_def setTimeout_def)
  qed
  show ?thesis
    using C9_empty_changes_do_nothing [where c = no_changes and s = demo_state
        and src = UserSource and c' = demo_changes and s' = demo_state] a b
    by (simp add: demo_state_eq)
qed

text \<open>
  C10. In every state the component can reach, at most one save request is in flight.
  When a save is in flight, or the editor is absent, a call of saveCanvasState changes
  nothing at all: no request is posted and nothing is recorded for later, so the state
  that triggered the call is not saved unless something else triggers a save again.
\<close>

theorem C10_single_save_in_flight:
  "in_flight (canvas_run es (canvas_init p)) \<le> 1
   \<and> (in_flight (canvas_run es (canvas_init p)) = 1 \<longrightarrow>
        saveCanvasState (canvas_run es (canvas_init p)) = canvas_run es (canvas_init p))
   \<and> (isSavingRef s \<or> \<not> editor s \<longrightarrow> saveCanvasState s = s)"
proof -
  have "canvas_inv (canvas_run es (canvas_init p))"
    by (rule canvas_inv_reachable)
  then show ?thesis
    by (auto simp: canvas_inv_def saveCanvasState_def split: if_splits)
qed

lemma saving_trace_in_flight: "in_flight (canvas_run saving_trace (canvas_init ''proj-1'')) = 1"
  by (simp add: saving_trace_def canvas_run_def canvas_init_def effects_setup_def emit_def
      active_def handleChange_def nonempty_changes_def demo_changes_def setTimeout_def
      clearTimeout_def effects_cleanup_def saveCanvasState_def Let_def)

theorem C10_witness:
  "in_flight (canvas_run saving_trace (canvas_init ''proj-1'')) = 1
   \<and> saveCanvasState (canvas_run saving_trace (canvas_init ''proj-1''))
       = canvas_run saving_trace (canvas_init ''proj-1'')
   \<and> \<not> editor (canvas_init ''proj-1'')
   \<and> saveCanvasState (canvas_init ''proj-1'') = canvas_init ''proj-1''"
proof -
  have e: "\<not> editor (canvas_init ''proj-1'')" by (simp add: canvas_init_def)
  show ?thesis
    using C10_single_save_in_flight [of saving_trace "''proj-1''" "canvas_init ''proj-1''"]
      saving_trace_in_flight e
    by simp
qed

section \<open>Echo suppression\<close>

lemma elapse_flag:
  "isRemoteUpdateRef (elapse n s) =
     (isRemoteUpdateRef s \<and>
      (n = 0 \<or> \<not> (\<exists>tm \<in> set (timers s). t_cb tm = ResetRemoteFlag \<and> t_due tm \<le> clock s + n)))"
proof (induction n)
  case 0
  then show ?case by simp
next
  case (Suc n)
  show ?case
    unfolding elapse_Suc_right tick_flag Suc
    by (cases "n = 0") (fastforce simp: elapse_timers)+
qed

lemma handleCanvasUpdate_fields:
  "isRemoteUpdateRef (handleCanvasUpdate d ns s)"
  "emitted (handleCanvasUpdate d ns s) = emitted s"
  "timers (handleCanvasUpdate d ns s) = timers s @ [(next_timer s, clock s + 100, ResetRemoteFlag)]"
  "clock (handleCanvasUpdate d ns s) = clock s"
  "store (handleCanvasUpdate d ns s) = apply_remote d (store s)"
  "active (handleCanvasUpdate d ns s) = active s"
  "projectId (handleCanvasUpdate d ns s) = projectId s"
  "saveTimeoutRef (handleCanvasUpdate d ns s) = saveTimeoutRef s"
  by (simp_all add: handleCanvasUpdate_def fold_handleChange_flagged setTimeout_def active_def Let_def)

text \<open>
  What does hold of the suppression: entries handed over while the merge runs are dropped,
  the reset is scheduled 100 ms after the merge, and an update that arrives while no
  earlier reset is pending keeps the flag raised for exactly those 100 ms.
\<close>

lemma remote_update_alone:
  assumes "pending ResetRemoteFlag s = []" "n < 100"
  shows "isRemoteUpdateRef (elapse n (handleCanvasUpdate d ns s))"
    and "\<not> isRemoteUpdateRef (elapse 100 (handleCanvasUpdate d ns s))"
    and "handleChange c (elapse n (handleCanvasUpdate d ns s)) = elapse n (handleCanvasUpdate d ns s)"
proof -
  have none: "\<forall>tm \<in> set (timers s). t_cb tm \<noteq> ResetRemoteFlag"
    using assms(1) by (simp add: pending_def filter_empty_conv)
  show 1: "isRemoteUpdateRef (elapse n (handleCanvasUpdate d ns s))"
    using none assms(2) by (auto simp: elapse_flag handleCanvasUpdate_fields)
  show "\<not> isRemoteUpdateRef (elapse 100 (handleCanvasUpdate d ns s))"
    by (simp add: elapse_flag handleCanvasUpdate_fields)
  show "handleChange c (elapse n (handleCanvasUpdate d ns s)) = elapse n (handleCanvasUpdate d ns s)"
    using 1 by (rule handleChange_flagged)
qed

lemma updates_of_cong: "emitted s' = emitted s \<Longrightarrow> updates_of s' = updates_of s"
  by (simp add: updates_of_def)

lemma updates_of_step:
  assumes "\<not> user_sourced e"
  shows "updates_of (canvas_step e s) = updates_of s"
proof (cases e)
  case (StoreNotify src c)
  then show ?thesis using assms by (cases src) simp_all
next
  case (CanvasUpdate d ns)
  then show ?thesis
    by (simp add: updates_of_cong [OF handleCanvasUpdate_fields(2)])
next
  case (Elapse n)
  then show ?thesis by simp
qed (use assms in \<open>auto simp: updates_of_def effects_setup_def effects_cleanup_def emit_def
      saveCanvasState_def saveSettled_def clearTimeout_def handlePointerMove_def
      setTimeout_def Let_def split: option.split\<close>)

lemma updates_of_run:
  assumes "list_all (\<lambda>e. \<not> user_sourced e) es"
  shows "updates_of (canvas_run es s) = updates_of s"
  using assms unfolding canvas_run_def
  by (induction es arbitrary: s) (simp_all add: updates_of_step)

text \<open>
  C2, as amended. A change entry of source remote never reaches the listener, and no
  sequence of events without a user-sourced entry emits a canvas:update, whatever remote
  updates it applies. \<^verbatim>\<open>handleCanvasUpdate\<close> raises the flag before it merges, so entries
  handed over during the merge are dropped and nothing is emitted; the listener changes
  nothing while the flag is raised; the merge is followed by one new timer that resets
  the flag 100 ms later, and after those 100 ms the flag is clear. When no reset of an
  earlier update is pending, the flag stays raised throughout the 100 ms.
\<close>

theorem C2_echo_suppression:
  "canvas_step (StoreNotify RemoteSource c) s = s
   \<and> (list_all (\<lambda>e. \<not> user_sourced e) es \<longrightarrow>
        updates_of (canvas_run es s) = updates_of s)
   \<and> isRemoteUpdateRef (handleCanvasUpdate d ns s)
   \<and> emitted (handleCanvasUpdate d ns s) = emitted s
   \<and> store (handleCanvasUpdate d ns s) = apply_remote d (store s)
   \<and> (isRemoteUpdateRef s' \<longrightarrow> handleChange c' s' = s')
   \<and> timers (handleCanvasUpdate d ns s)
        = timers s @ [(next_timer s, clock s + 100, ResetRemoteFlag)]
   \<and> \<not> isRemoteUpdateRef (elapse 100 (handleCanvasUpdate d ns s))
   \<and> (pending ResetRemoteFlag s = [] \<and> n < 100 \<longrightarrow>
        isRemoteUpdateRef (elapse n (handleCanvasUpdate d ns s)))"
proof -
  have 1: "canvas_step (StoreNotify RemoteSource c) s = s" by simp
  have 2: "list_all (\<lambda>e. \<not> user_sourced e) es \<longrightarrow>
        updates_of (canvas_run es s) = updates_of s"
    by (simp add: updates_of_run)
  have 3: "isRemoteUpdateRef s' \<longrightarrow> handleChange c' s' = s'"
    by (simp add: handleChange_flagged)
  have 4: "\<not> isRemoteUpdateRef (elapse 100 (handleCanvasUpdate d ns s))"
    by (simp add: elapse_flag handleCanvasUpdate_fields)
  have 5: "pending ResetRemoteFlag s = [] \<and> n < 100 \<longrightarrow>
        isRemoteUpdateRef (elapse n (handleCanvasUpdate d ns s))"
    using remote_update_alone(1) [of s n d ns] by blast
  from 1 2 3 4 5 show ?thesis
    by (simp add: handleCanvasUpdate_fields)
qed

theorem C2_witness:
  "list_all (\<lambda>e. \<not> user_sourced e) quiet_trace
   \<and> updates_of (canvas_run quiet_trace demo_state) = []
   \<and> isRemoteUpdateRef (handleCanvasUpdate demo_remote [demo_changes] demo_state)
   \<and> emitted (handleCanvasUpdate demo_remote [demo_changes] demo_state)
        = [(0, JoinProjectMsg ''proj-1'')]
   \<and> handleChange demo_changes (handleCanvasUpdate demo_remote [demo_changes] demo_state)
        = handleCanvasUpdate demo_remote [demo_changes] demo_state
   \<and> timers (handleCanvasUpdate demo_remote [demo_changes] demo_state)
        = [(1, 100, ResetRemoteFlag)]
   \<and> pending ResetRemoteFlag demo_state = []
   \<and> isRemoteUpdateRef (elapse 99 (handleCanvasUpdate demo_remote [demo_changes] demo_state))
   \<and> \<not> isRemoteUpdateRef (elapse 100 (handleCanvasUpdate demo_remote [demo_changes] demo_state))"
proof -
  have q: "list_all (\<lambda>e. \<not> user_sourced e) quiet_trace"
    by (simp add: quiet_trace_def overlap_trace_def)
  have f: "isRemoteUpdateRef (handleCanvasUpdate demo_remote [demo_changes] demo_state)"
    by (rule handleCanvasUpdate_fields(1))
  have p: "pending ResetRemoteFlag demo_state = []"
    by (simp add: pending_def demo_state_eq)
  have u: "updates_of demo_state = []" "emitted demo_state = [(0, JoinProjectMsg ''proj-1'')]"
    "timers demo_state = []" "next_timer demo_state = 1" "clock demo_state = 0"
    by (simp_all add: demo_state_eq updates_of_def)
  have n: "(99::nat) < 100" by simp
  show ?thesis
    using C2_echo_suppression [where s = demo_state and es = quiet_trace and d = demo_remote
        and ns = "[demo_changes]" and c = demo_changes and c' = demo_changes
        and s' = "handleCanvasUpdate demo_remote [demo_changes] demo_state" and n = 99]
      q f p u n
    by simp
qed

text \<open>
  The claim as worded has the flag cleared 100 ms after every application. With two remote
  updates 50 ms apart it is not: the second update is applied at 50 ms and raises the
  flag, the reset scheduled by the first update falls due at 100 ms and clears it, 50 ms
  after the second application, while the reset of the second one (due at 150 ms) is
  still pending.
\<close>

theorem C2_counterexample:
  "clock (canvas_run overlap_trace demo_state) = 50
   \<and> isRemoteUpdateRef (canvas_run overlap_trace demo_state)
   \<and> isRemoteUpdateRef (canvas_run (overlap_trace @ [Elapse 49]) demo_state)
   \<and> clock (canvas_run (overlap_trace @ [Elapse 50]) demo_state) = 100
   \<and> \<not> isRemoteUpdateRef (canvas_run (overlap_trace @ [Elapse 50]) demo_state)
   \<and> pending ResetRemoteFlag (canvas_run (overlap_trace @ [Elapse 50]) demo_state)
        = [(2, 150, ResetRemoteFlag)]"
proof -
  define s1 where "s1 = handleCanvasUpdate demo_remote [] demo_state"
  define s2 where "s2 = handleCanvasUpdate demo_remote [] (elapse 50 s1)"
  have a: "active demo_state" "timers demo_state = []" "clock demo_state = 0"
    "next_timer demo_state = 1" "updates_of demo_state = []"
    by (simp_all add: demo_state_eq active_def updates_of_def)
  have t1: "timers s1 = [(1, 100, ResetRemoteFlag)]" and c1: "clock s1 = 0"
    and act1: "active s1" and n1: "next_timer s1 = 2"
    unfolding s1_def using a by (simp_all add: handleCanvasUpdate_fields)
      (simp add: handleCanvasUpdate_def fold_handleChange_flagged setTimeout_def Let_def)
  have t2: "timers s2 = [(1, 100, ResetRemoteFlag), (2, 150, ResetRemoteFlag)]"
    and c2: "clock s2 = 50" and act2: "active s2" and f2: "isRemoteUpdateRef s2"
    and e2: "emitted s2 = emitted demo_state"
    unfolding s2_def using t1 c1 act1 n1
    by (simp_all add: handleCanvasUpdate_fields elapse_timers elapse_cursor_quiet)
      (simp add: s1_def handleCanvasUpdate_fields)
  have run: "canvas_run (overlap_trace @ es) demo_state = canvas_run es s2" for es
    using a(1) act1
    by (simp add: overlap_trace_def canvas_run_Cons canvas_run_append canvas_run_Nil s1_def s2_def)
  have f49: "isRemoteUpdateRef (elapse 49 s2)" using t2 c2 f2 by (simp add: elapse_flag)
  have f50: "\<not> isRemoteUpdateRef (elapse 50 s2)" using t2 c2 by (simp add: elapse_flag)
  have p50: "pending ResetRemoteFlag (elapse 50 s2) = [(2, 150, ResetRemoteFlag)]"
    using t2 c2 by (simp add: pending_def elapse_timers)
  have run0: "canvas_run overlap_trace demo_state = s2"
    using run [of "[]"] by (simp add: canvas_run_Nil)
  show ?thesis
    unfolding run run0 using f49 f50 p50 f2 c2
    by (simp add: canvas_run_Cons canvas_run_Nil)
qed

section \<open>The debounced save\<close>

lemma pending_elapse:
  "pending cb (elapse n s) =
     (if n = 0 then pending cb s
      else filter (\<lambda>tm. \<not> t_due tm \<le> clock s + n) (pending cb s))"
  by (auto simp: pending_def elapse_timers intro: filter_cong)

lemma pending_quiet:
  assumes "pending cb s = [(k, D, cb)]" "clock s + n < D"
  shows "pending cb (elapse n s) = [(k, D, cb)]"
  using assms by (simp add: pending_elapse)

lemma pending_all:
  "(\<forall>tm \<in> set (timers s). t_cb tm = cb \<longrightarrow> P tm) = (\<forall>tm \<in> set (pending cb s). P tm)"
  by (auto simp: pending_def)




lemma edit_step:
  assumes "canvas_inv s" "active s" "\<not> isRemoteUpdateRef s" "nonempty_changes c"
  shows "pending SaveCallback (canvas_step (UserEdit c) s) = [(next_timer s, clock s + 3000, SaveCallback)]"
    and "clock (canvas_step (UserEdit c) s) = clock s"
    and "posts (canvas_step (UserEdit c) s) = posts s"
    and "isSavingRef (canvas_step (UserEdit c) s) = isSavingRef s"
    and "isRemoteUpdateRef (canvas_step (UserEdit c) s) = isRemoteUpdateRef s"
    and "active (canvas_step (UserEdit c) s)"
    and "store (canvas_step (UserEdit c) s) = apply_local c (store s)"
    and "updates_of (canvas_step (UserEdit c) s) = updates_of s @ [(clock s, c)]"
proof -
  show "pending SaveCallback (canvas_step (UserEdit c) s) = [(next_timer s, clock s + 3000, SaveCallback)]"
    using assms
    by (auto simp: pending_def canvas_inv_def handleChange_def emit_def setTimeout_def
        clearTimeout_def Let_def filter_empty_conv split: option.split)
qed (use assms in \<open>auto simp: handleChange_def emit_def setTimeout_def
        clearTimeout_def Let_def active_def updates_of_def split: option.split\<close>)





section \<open>The debounced cursor broadcast\<close>

lemma cursor_quiet:
  assumes "pending BroadcastCursor s = [(k, D, BroadcastCursor)]" "clock s + n < D"
  shows "emitted (elapse n s) = emitted s"
  using assms by (intro elapse_cursor_quiet) (simp add: pending_all)

lemma filter_due_pending:
  "filter (\<lambda>tm. P tm \<and> t_cb tm = cb) (timers s) = filter P (pending cb s)"
  by (auto simp: pending_def intro: filter_cong)

lemma cursor_fires:
  assumes p: "pending BroadcastCursor s = [(k, D, BroadcastCursor)]" and lt: "clock s < D"
    and pt: "currentPagePoint s = Some q"
  shows "emitted (elapse (D - clock s) s) = emitted s @ [(D, CanvasCursorMsg (projectId s) q)]
         \<and> pending BroadcastCursor (elapse (D - clock s) s) = []"
proof -
  obtain m where m: "D - clock s = Suc m" using lt by (cases "D - clock s") auto
  then have D: "D = Suc (clock s + m)" using lt by simp
  have lt': "clock s + m < D" using D by simp
  have q: "emitted (elapse m s) = emitted s"
    by (rule cursor_quiet [OF p lt'])
  have pm: "pending BroadcastCursor (elapse m s) = [(k, D, BroadcastCursor)]"
    by (rule pending_quiet [OF p lt'])
  have "emitted (elapse (Suc m) s) = emitted s @ [(D, CanvasCursorMsg (projectId s) q)]"
    unfolding elapse_Suc_right using q pm pt D
    by (simp add: tick_emitted filter_due_pending)
  moreover have "pending BroadcastCursor (elapse (Suc m) s) = []"
    using p D pending_elapse [of BroadcastCursor "Suc m" s] by (simp del: elapse.simps)
  ultimately show ?thesis using m by simp
qed

lemma cursors_of_append_emitted:
  "emitted s' = emitted s @ ms \<Longrightarrow>
   cursors_of s' = cursors_of s
     @ concat (map (\<lambda>(t, m). case m of CanvasCursorMsg p q \<Rightarrow> [(t, q)] | _ \<Rightarrow> []) ms)"
  by (simp add: cursors_of_def)

lemma move_step:
  assumes "canvas_inv s" "active s"
  shows "pending BroadcastCursor (canvas_step (PointerMove q) s)
           = [(next_timer s, clock s + 100, BroadcastCursor)]"
    and "clock (canvas_step (PointerMove q) s) = clock s"
    and "emitted (canvas_step (PointerMove q) s) = emitted s"
    and "currentPagePoint (canvas_step (PointerMove q) s) = Some q"
    and "active (canvas_step (PointerMove q) s)"
    and "projectId (canvas_step (PointerMove q) s) = projectId s"
proof -
  show "pending BroadcastCursor (canvas_step (PointerMove q) s)
           = [(next_timer s, clock s + 100, BroadcastCursor)]"
    using assms
    by (auto simp: pending_def canvas_inv_def handlePointerMove_def setTimeout_def
        clearTimeout_def Let_def filter_empty_conv split: option.split)
qed (use assms in \<open>auto simp: handlePointerMove_def setTimeout_def
        clearTimeout_def Let_def active_def split: option.split\<close>)

lemma ptr_tail_run:
  assumes "canvas_inv s" "active s"
    and "pending BroadcastCursor s = [(k, clock s + 100, BroadcastCursor)]"
    and "currentPagePoint s = Some q0"
    and "\<forall>gp \<in> set rest. fst gp < 100"
  shows "canvas_inv (canvas_run (ptr_tail rest) s)
     \<and> active (canvas_run (ptr_tail rest) s)
     \<and> (\<exists>k'. pending BroadcastCursor (canvas_run (ptr_tail rest) s)
            = [(k', clock (canvas_run (ptr_tail rest) s) + 100, BroadcastCursor)])
     \<and> clock (canvas_run (ptr_tail rest) s) = clock s + sum_list (map fst rest)
     \<and> emitted (canvas_run (ptr_tail rest) s) = emitted s
     \<and> projectId (canvas_run (ptr_tail rest) s) = projectId s
     \<and> currentPagePoint (canvas_run (ptr_tail rest) s) = Some (last (q0 # map snd rest))"
  using assms
proof (induction rest arbitrary: s k q0)
  case Nil
  then show ?case by (simp add: canvas_run_Nil)
next
  case (Cons gp rest)
  define s1 where "s1 = elapse (fst gp) s"
  define s2 where "s2 = canvas_step (PointerMove (snd gp)) s1"
  have g: "fst gp < 100" using Cons.prems(5) by simp
  have lt: "clock s + fst gp < clock s + 100" using g by linarith
  have q: "emitted s1 = emitted s"
    unfolding s1_def by (rule cursor_quiet [OF Cons.prems(3) lt])
  have inv1: "canvas_inv s1" unfolding s1_def using Cons.prems(1) by (rule canvas_inv_elapse)
  have act1: "active s1" unfolding s1_def using Cons.prems(2) by simp
  have clk1: "clock s1 = clock s + fst gp" by (simp add: s1_def)
  have pr1: "projectId s1 = projectId s" by (simp add: s1_def)
  note e = move_step [OF inv1 act1, of "snd gp", folded s2_def]
  have inv2: "canvas_inv s2" unfolding s2_def using inv1 by (rule canvas_inv_step)
  have p2: "pending BroadcastCursor s2 = [(next_timer s1, clock s2 + 100, BroadcastCursor)]"
    using e(1) e(2) by simp
  have rest: "\<forall>gp \<in> set rest. fst gp < 100" using Cons.prems(5) by simp
  note IH = Cons.IH [OF inv2 e(5) p2 e(4) rest]
  have run: "canvas_run (ptr_tail (gp # rest)) s = canvas_run (ptr_tail rest) s2"
    by (simp add: s2_def s1_def canvas_run_Cons)
  show ?case
    unfolding run using IH e(2) e(3) e(6) q clk1 pr1
    by (auto simp: ac_simps)
qed

text \<open>
  C6, as amended. From any reachable state in which the pointer listener is set up: a
  burst of one or more pointer movements, each less than 100 ms after the one before,
  emits nothing while it lasts or during the first \<open>d < 100\<close> ms after it, and 100 ms
  after the last movement exactly one message has been emitted, a canvas:cursor carrying
  the pointer position of that moment, which is the position of the last movement; no
  cursor timer is left.
\<close>

theorem C6_debounced_cursor:
  assumes "s = canvas_run es (canvas_init p)"
    and "active s"
    and "\<forall>gp \<in> set rest. fst gp < 100"
    and "d < 100"
  shows "emitted (canvas_run (PointerMove q0 # ptr_tail rest @ [Elapse 100]) s)
           = emitted s @ [(clock s + sum_list (map fst rest) + 100,
                           CanvasCursorMsg (projectId s) (last (q0 # map snd rest)))]
     \<and> currentPagePoint (canvas_run (PointerMove q0 # ptr_tail rest @ [Elapse 100]) s)
           = Some (last (q0 # map snd rest))
     \<and> emitted (canvas_run (PointerMove q0 # ptr_tail rest @ [Elapse d]) s) = emitted s
     \<and> pending BroadcastCursor (canvas_run (PointerMove q0 # ptr_tail rest @ [Elapse 100]) s) = []"
proof -
  define s0 where "s0 = canvas_step (PointerMove q0) s"
  define sN where "sN = canvas_run (ptr_tail rest) s0"
  have inv: "canvas_inv s" unfolding assms(1) by (rule canvas_inv_reachable)
  note e = move_step [OF inv assms(2), of q0, folded s0_def]
  have inv0: "canvas_inv s0" unfolding s0_def using inv by (rule canvas_inv_step)
  have p0: "pending BroadcastCursor s0 = [(next_timer s, clock s0 + 100, BroadcastCursor)]"
    using e(1) e(2) by simp
  note b = ptr_tail_run [OF inv0 e(5) p0 e(4) assms(3), folded sN_def]
  from b obtain k where pN: "pending BroadcastCursor sN = [(k, clock sN + 100, BroadcastCursor)]"
    by blast
  have clkN: "clock sN = clock s + sum_list (map fst rest)" using b e(2) by simp
  have emN: "emitted sN = emitted s" using b e(3) by simp
  have prN: "projectId sN = projectId s" using b e(6) by simp
  have ptN: "currentPagePoint sN = Some (last (q0 # map snd rest))" using b by simp
  have fire: "emitted (elapse 100 sN)
        = emitted sN @ [(clock sN + 100, CanvasCursorMsg (projectId sN) (last (q0 # map snd rest)))]
         \<and> pending BroadcastCursor (elapse 100 sN) = []"
    using cursor_fires [OF pN _ ptN] by simp
  have ltd: "clock sN + d < clock sN + 100" using assms(4) by linarith
  have quiet: "emitted (elapse d sN) = emitted sN"
    by (rule cursor_quiet [OF pN ltd])
  have run': "canvas_run (PointerMove q0 # ptr_tail rest @ [Elapse n]) s = elapse n sN" for n
    by (simp add: sN_def s0_def canvas_run_Cons canvas_run_append canvas_run_Nil)
  show ?thesis
    unfolding run' using fire quiet clkN emN prN ptN
    by (simp add: ac_simps)
qed

theorem C6_witness:
  "active demo_state
   \<and> list_all (\<lambda>gp. fst gp < 100) demo_moves
   \<and> emitted (canvas_run (PointerMove (1, 2) # ptr_tail demo_moves @ [Elapse 100]) demo_state)
        = [(0, JoinProjectMsg ''proj-1''), (215, CanvasCursorMsg ''proj-1'' (30, 40))]
   \<and> emitted (canvas_run (PointerMove (1, 2) # ptr_tail demo_moves @ [Elapse 99]) demo_state)
        = [(0, JoinProjectMsg ''proj-1'')]
   \<and> pending BroadcastCursor
        (canvas_run (PointerMove (1, 2) # ptr_tail demo_moves @ [Elapse 100]) demo_state) = []"
proof -
  have h: "\<forall>gp \<in> set demo_moves. fst gp < 100"
    by (simp add: demo_moves_def)
  have a: "active demo_state"
    by (simp add: demo_state_eq active_def)
  have u: "emitted demo_state = [(0, JoinProjectMsg ''proj-1'')]" "clock demo_state = 0"
    "projectId demo_state = ''proj-1''"
    by (simp_all add: demo_state_eq)
  have l: "list_all (\<lambda>gp. fst gp < 100) demo_moves"
    using h by (simp add: list_all_iff)
  have d: "(99::nat) < 100" by simp
  show ?thesis
    using C6_debounced_cursor [OF demo_state_def a h d, of "(1, 2)"] a l u
    by (simp add: demo_moves_def)
qed

text \<open>
  The claim as the specification words it covers freeform drawing too, and there it
  fails: two canvas edits 50 ms apart, inside one window of 100 ms (and of 300 ms), are
  broadcast as two canvas:update messages, not one.
\<close>

theorem C6_counterexample:
  "updates_of (canvas_run [UserEdit demo_changes, Elapse 50, UserEdit demo_changes, Elapse 100]
      demo_state) = [(0, demo_changes), (50, demo_changes)]"
proof -
  define s1 where "s1 = canvas_step (UserEdit demo_changes) demo_state"
  define s2 where "s2 = elapse 50 s1"
  define s3 where "s3 = canvas_step (UserEdit demo_changes) s2"
  have ne: "nonempty_changes demo_changes"
    by (simp add: nonempty_changes_def demo_changes_def)
  have inv: "canvas_inv demo_state" unfolding demo_state_def by (rule canvas_inv_reachable)
  have a: "active demo_state" "\<not> isRemoteUpdateRef demo_state"
    "updates_of demo_state = []" "clock demo_state = 0"
    by (simp_all add: demo_state_eq active_def updates_of_def)
  note e1 = edit_step [OF inv a(1) a(2) ne, folded s1_def]
  have inv2: "canvas_inv s2" unfolding s2_def s1_def
    using inv by (intro canvas_inv_elapse canvas_inv_step)
  have act2: "active s2" unfolding s2_def using e1(6) by simp
  have fl2: "\<not> isRemoteUpdateRef s2" unfolding s2_def
    using e1(5) a(2) by (intro elapse_flag_clear) simp
  note e3 = edit_step [OF inv2 act2 fl2 ne, folded s3_def]
  have "updates_of (elapse 100 s3) = [(0, demo_changes), (50, demo_changes)]"
    using e3(8) e1(8) e1(2) a by (simp add: s2_def)
  then show ?thesis
    by (simp add: canvas_run_Cons canvas_run_Nil s3_def s2_def s1_def)
qed

section \<open>Facts about the hook\<close>

lemma hook_run_Nil: "hook_run [] s = s"
  by (simp add: hook_run_def)

lemma hook_run_Cons: "hook_run (e # es) s = hook_run es (hook_step e s)"
  by (simp add: hook_run_def)


lemma hook_run_snoc: "hook_run (es @ [e]) s = hook_step e (hook_run es s)"
  by (simp add: hook_run_def)

lemma fold_pingCallback_frame [simp]:
  "intervals (fold (\<lambda>iv. pingCallback) due s) = intervals s"
  "hk_clock (fold (\<lambda>iv. pingCallback) due s) = hk_clock s"
  "hk_next_timer (fold (\<lambda>iv. pingCallback) due s) = hk_next_timer s"
  "sock_connected (fold (\<lambda>iv. pingCallback) due s) = sock_connected s"
  "pingIntervalRef (fold (\<lambda>iv. pingCallback) due s) = pingIntervalRef s"
  "reconnectTimeoutRef (fold (\<lambda>iv. pingCallback) due s) = reconnectTimeoutRef s"
  "activeUsers (fold (\<lambda>iv. pingCallback) due s) = activeUsers s"
  "listening (fold (\<lambda>iv. pingCallback) due s) = listening s"
  "opt_projectId (fold (\<lambda>iv. pingCallback) due s) = opt_projectId s"
  by (induction due arbitrary: s; simp add: pingCallback_def send_def)+

lemma fold_pingCallback_sent:
  "sent (fold (\<lambda>iv. pingCallback) due s) =
     sent s @ (if sock_connected s then map (\<lambda>iv. (hk_clock s, Ping)) due else [])"
  by (induction due arbitrary: s) (simp_all add: pingCallback_def send_def)

lemma hook_tick_frame [simp]:
  "hk_clock (hook_tick s) = Suc (hk_clock s)"
  "hk_next_timer (hook_tick s) = hk_next_timer s"
  "sock_connected (hook_tick s) = sock_connected s"
  "pingIntervalRef (hook_tick s) = pingIntervalRef s"
  "reconnectTimeoutRef (hook_tick s) = reconnectTimeoutRef s"
  "activeUsers (hook_tick s) = activeUsers s"
  "listening (hook_tick s) = listening s"
  "opt_projectId (hook_tick s) = opt_projectId s"
  by (simp_all add: hook_tick_def Let_def)

lemma hook_tick_intervals:
  "intervals (hook_tick s) =
     map (\<lambda>iv. if fst (snd iv) \<le> Suc (hk_clock s)
                then (fst iv, fst (snd iv) + snd (snd iv), snd (snd iv)) else iv) (intervals s)"
  by (simp add: hook_tick_def Let_def)

lemma hook_tick_sent:
  "sent (hook_tick s) =
     sent s @ (if sock_connected s
               then map (\<lambda>iv. (Suc (hk_clock s), Ping))
                      (filter (\<lambda>iv. fst (snd iv) \<le> Suc (hk_clock s)) (intervals s))
               else [])"
  by (simp add: hook_tick_def Let_def fold_pingCallback_sent)

lemma hook_elapse_Suc_right: "hook_elapse (Suc n) s = hook_tick (hook_elapse n s)"
  by (induction n arbitrary: s) simp_all

lemma hook_elapse_frame [simp]:
  "hk_clock (hook_elapse n s) = hk_clock s + n"
  "hk_next_timer (hook_elapse n s) = hk_next_timer s"
  "sock_connected (hook_elapse n s) = sock_connected s"
  "pingIntervalRef (hook_elapse n s) = pingIntervalRef s"
  "reconnectTimeoutRef (hook_elapse n s) = reconnectTimeoutRef s"
  "activeUsers (hook_elapse n s) = activeUsers s"
  "listening (hook_elapse n s) = listening s"
  "opt_projectId (hook_elapse n s) = opt_projectId s"
  by (induction n arbitrary: s; simp)+

lemma hook_elapse_ids [simp]: "map fst (intervals (hook_elapse n s)) = map fst (intervals s)"
  by (induction n arbitrary: s) (simp_all add: hook_tick_intervals o_def)

text \<open>With no interval alive, time passes and nothing is sent.\<close>

lemma hook_elapse_no_intervals:
  "intervals s = [] \<Longrightarrow> intervals (hook_elapse n s) = [] \<and> sent (hook_elapse n s) = sent s"
  by (induction n arbitrary: s) (simp_all add: hook_tick_intervals hook_tick_sent)

text \<open>While the socket is not connected, the interval callback sends nothing.\<close>

lemma hook_elapse_disconnected:
  "\<not> sock_connected s \<Longrightarrow> sent (hook_elapse n s) = sent s"
  by (induction n arbitrary: s) (simp_all add: hook_tick_sent)

lemma hook_inv_init: "hook_inv (hook_init p conn)"
  by (simp add: hook_inv_def hook_init_def)

lemma with_projectId_frame [simp]:
  assumes "\<And>p t. intervals (f p t) = intervals t"
    "\<And>p t. pingIntervalRef (f p t) = pingIntervalRef t"
    "\<And>p t. reconnectTimeoutRef (f p t) = reconnectTimeoutRef t"
  shows "intervals (with_projectId f s) = intervals s"
    "pingIntervalRef (with_projectId f s) = pingIntervalRef s"
    "reconnectTimeoutRef (with_projectId f s) = reconnectTimeoutRef s"
  using assms by (simp_all add: with_projectId_def split: option.split)

lemma hook_inv_elapse: "hook_inv s \<Longrightarrow> hook_inv (hook_elapse n s)"
proof -
  assume inv: "hook_inv s"
  have ids: "fst ` set (intervals (hook_elapse n s)) = fst ` set (intervals s)"
    by (metis hook_elapse_ids set_map)
  have "pingIntervalRef s = Some (fst iv)" if "iv \<in> set (intervals (hook_elapse n s))" for iv
  proof -
    from that have "fst iv \<in> fst ` set (intervals s)" using ids by (metis imageI)
    then obtain iv' where "iv' \<in> set (intervals s)" "fst iv' = fst iv" by auto
    then show ?thesis using inv by (auto simp: hook_inv_def list_all_iff)
  qed
  then show ?thesis using inv by (simp add: hook_inv_def list_all_iff)
qed

lemma hook_inv_step: "hook_inv s \<Longrightarrow> hook_inv (hook_step e s)"
proof (cases e)
  case (HElapse n)
  assume "hook_inv s"
  then show ?thesis using HElapse by (simp add: hook_inv_elapse)
qed (auto simp: hook_inv_def list_all_iff effect_run_def effect_cleanup_def room_effect_run_def
     room_effect_cleanup_def onConnect_def onDisconnect_def onReconnect_def
     onReconnectAttempt_def onPong_def onUsersActive_def onUsersCount_def onUserJoined_def
     onUserLeft_def disconnect_def disconnectSocket_def with_projectId_def joinProject_def
     leaveProject_def send_def setInterval_def clearTimer_def Let_def split: option.splits)

lemma hook_inv_run: "hook_inv s \<Longrightarrow> hook_inv (hook_run es s)"
  unfolding hook_run_def by (induction es arbitrary: s) (simp_all add: hook_inv_step)

lemma hook_inv_reachable: "hook_inv (hook_run es (hook_init p conn))"
  by (simp add: hook_inv_run hook_inv_init)

section \<open>Presence\<close>

lemma dedup_users_ids:
  "distinct (map userId (dedup_users us seen))
   \<and> set (map userId (dedup_users us seen)) = set (map userId us) - set seen"
  by (induction us arbitrary: seen) auto

lemma distinct_count_one:
  "distinct (map f xs) \<Longrightarrow> x \<in> set (map f xs) \<Longrightarrow> length (filter (\<lambda>e. f e = x) xs) = 1"
proof (induction xs)
  case Nil
  then show ?case by simp
next
  case (Cons a xs)
  show ?case
  proof (cases "f a = x")
    case True
    have "f a \<notin> f ` set xs" using Cons.prems(1) by simp
    then have "\<forall>e \<in> set xs. f e \<noteq> x" using True by (metis imageI)
    then have "filter (\<lambda>e. f e = x) xs = []"
      by (simp add: filter_empty_conv)
    with True show ?thesis by simp
  next
    case False
    then show ?thesis using Cons by auto
  qed
qed

lemma presence_step:
  assumes "distinct (map userId (activeUsers s))" "snapshot_ok e"
  shows "distinct (map userId (activeUsers (hook_step e s)))"
  using assms
  by (cases e)
    (auto simp: effect_run_def effect_cleanup_def room_effect_run_def room_effect_cleanup_def
      onConnect_def onDisconnect_def onReconnect_def onReconnectAttempt_def onPong_def
      onUsersActive_def onUsersCount_def onUserJoined_def onUserLeft_def disconnect_def
      disconnectSocket_def with_projectId_def joinProject_def leaveProject_def send_def
      setInterval_def clearTimer_def Let_def list_ex_iff distinct_map_filter
      split: option.splits)

lemma presence_run:
  assumes "distinct (map userId (activeUsers s))" "list_all snapshot_ok es"
  shows "distinct (map userId (activeUsers (hook_run es s)))"
  using assms unfolding hook_run_def
  by (induction es arbitrary: s) (simp_all add: presence_step)

text \<open>
  C3, as amended. The list the server sends (as the specification describes it) holds
  exactly one entry for every user with at least one connection. The hook's list holds no
  two entries with one userId after any sequence of events whose users:active payloads
  are themselves free of duplicates: user:joined is checked against the list, user:left
  filters it, and a users:active payload replaces it as received.
\<close>

theorem C3_presence_distinct:
  "(uid \<in> set (map (\<lambda>c. userId (conn_user c)) conns) \<longrightarrow>
      length (filter (\<lambda>e. userId e = uid) (users_active conns)) = 1)
   \<and> snapshot_ok (UsersActive (users_active conns) n)
   \<and> (list_all snapshot_ok es \<longrightarrow>
      distinct (map userId (activeUsers (hook_run es (hook_init p conn)))))"
proof -
  have d: "distinct (map userId (users_active conns))"
    and m: "set (map userId (users_active conns)) = set (map (\<lambda>c. userId (conn_user c)) conns)"
    using dedup_users_ids [of "map conn_user conns" "[]"] by (simp_all add: users_active_def o_def)
  have 1: "uid \<in> set (map (\<lambda>c. userId (conn_user c)) conns) \<longrightarrow>
      length (filter (\<lambda>e. userId e = uid) (users_active conns)) = 1"
    using distinct_count_one [OF d, of uid] m by simp
  have 3: "list_all snapshot_ok es \<longrightarrow>
      distinct (map userId (activeUsers (hook_run es (hook_init p conn))))"
    using presence_run [of "hook_init p conn" es] by (simp add: hook_init_def)
  from 1 d 3 show ?thesis by simp
qed

theorem C3_witness:
  "''u-alice'' \<in> set (map (\<lambda>c. userId (conn_user c)) demo_conns)
   \<and> length (filter (\<lambda>e. userId e = ''u-alice'') (users_active demo_conns)) = 1
   \<and> list_all snapshot_ok presence_trace
   \<and> distinct (map userId (activeUsers (hook_run presence_trace (hook_init (Some ''proj-1'') False))))"
proof -
  have a: "''u-alice'' \<in> set (map (\<lambda>c. userId (conn_user c)) demo_conns)"
    by (simp add: demo_conns_def alice_def)
  have b: "list_all snapshot_ok presence_trace"
    by (simp add: presence_trace_def alice_def bob_def)
  show ?thesis
    using C3_presence_distinct [of "''u-alice''" demo_conns 0 presence_trace "Some ''proj-1''" False] a b
    by simp
qed

text \<open>
  The claim as worded quantifies over any users:active event. A payload that lists one
  user twice, once per connection, is stored as it is.
\<close>

theorem C3_counterexample:
  "activeUsers (hook_run [EffectRun, Connect, UsersActive [alice, alice_again] 2]
      (hook_init (Some ''proj-1'') False)) = [alice, alice_again]
   \<and> userId alice = userId alice_again
   \<and> \<not> distinct (map userId (activeUsers
        (hook_run [EffectRun, Connect, UsersActive [alice, alice_again] 2]
           (hook_init (Some ''proj-1'') False))))"
  by (simp add: hook_run_def hook_init_def effect_run_def onConnect_def with_projectId_def
      joinProject_def send_def setInterval_def onUsersActive_def alice_def alice_again_def Let_def)

section \<open>Reconnection and explicit disconnect\<close>






lemma onDisconnect_fields:
  "joins_of (onDisconnect r s) = joins_of s"
  "listening (onDisconnect r s) = listening s"
  "opt_projectId (onDisconnect r s) = opt_projectId s"
  "socket (onDisconnect r s) = socket s"
  "\<not> isConnected (onDisconnect r s)"
  "activeUsers (onDisconnect r s) = activeUsers s"
  "userCount (onDisconnect r s) = userCount s"
  "reconnect_scheduled (onDisconnect r s) = reconnect_scheduled s"
  "reconnectTimeoutRef (onDisconnect r s) = reconnectTimeoutRef s"
  by (simp_all add: onDisconnect_def joins_of_def clearTimer_def Let_def split: option.split)

text \<open>
  Were the \<^verbatim>\<open>reconnect\<close> listener called as well, it would issue the join of the same
  room a second time.
\<close>

lemma onReconnect_joins: "joins_of (onReconnect s) = joins_of s @ remembered_room s"
  by (simp add: onReconnect_def joins_of_def remembered_room_def with_projectId_def
      joinProject_def send_def split: option.split)



lemma settled_hook_eq:
  "settled_hook =
    \<lparr>opt_projectId = Some ''proj-1'', socket = Some SocketInstance, isConnected = True,
     isReconnecting = False, activeUsers = [], userCount = 0, lastPing = None,
     reconnectTimeoutRef = None, pingIntervalRef = Some 1, listening = True,
     roomJoined = False, sock_connected = True, reconnect_scheduled = False,
     intervals = [(1, 30000, 30000)], hk_next_timer = 2, hk_clock = 0,
     sent = [(0, JoinProject ''proj-1'')]\<rparr>"
  by (simp add: settled_hook_def hook_run_def hook_init_def effect_run_def onConnect_def
      with_projectId_def joinProject_def send_def setInterval_def Let_def)


text \<open>
  C8. Whatever the hook has been through, after its \<^verbatim>\<open>disconnect\<close> callback the socket
  handle is null, \<^verbatim>\<open>isConnected\<close> is false, the presence list is empty and the user count
  is 0; no reconnection attempt is scheduled and the reconnect timer ref holds nothing.
  The same is true once the disconnect listener has run on the closed socket.
\<close>

theorem C8_disconnect_clears_state:
  "socket (hook_step CallDisconnect (hook_run es (hook_init p conn))) = None
   \<and> \<not> isConnected (hook_step CallDisconnect (hook_run es (hook_init p conn)))
   \<and> activeUsers (hook_step CallDisconnect (hook_run es (hook_init p conn))) = []
   \<and> userCount (hook_step CallDisconnect (hook_run es (hook_init p conn))) = 0
   \<and> \<not> reconnect_scheduled (hook_step CallDisconnect (hook_run es (hook_init p conn)))
   \<and> reconnectTimeoutRef (hook_step CallDisconnect (hook_run es (hook_init p conn))) = None
   \<and> socket (onDisconnect reason (disconnect (hook_run es (hook_init p conn)))) = None
   \<and> \<not> isConnected (onDisconnect reason (disconnect (hook_run es (hook_init p conn))))
   \<and> activeUsers (onDisconnect reason (disconnect (hook_run es (hook_init p conn)))) = []
   \<and> userCount (onDisconnect reason (disconnect (hook_run es (hook_init p conn)))) = 0
   \<and> \<not> reconnect_scheduled (onDisconnect reason (disconnect (hook_run es (hook_init p conn))))"
proof -
  have "hook_inv (hook_run es (hook_init p conn))" by (rule hook_inv_reachable)
  then have "reconnectTimeoutRef (hook_run es (hook_init p conn)) = None"
    by (simp add: hook_inv_def)
  then show ?thesis
    by (simp add: onDisconnect_fields) (simp add: disconnect_def disconnectSocket_def)
qed

section \<open>The heartbeat\<close>

lemma pings_of_cong: "sent s' = sent s \<Longrightarrow> pings_of s' = pings_of s"
  by (simp add: pings_of_def)

text \<open>Until the first interval falls due, time passes and nothing else changes.\<close>

lemma hook_elapse_idle:
  assumes "list_all (\<lambda>iv. hk_clock s + n < fst (snd iv)) (intervals s)"
  shows "intervals (hook_elapse n s) = intervals s \<and> sent (hook_elapse n s) = sent s"
  using assms
proof (induction n arbitrary: s)
  case 0
  then show ?case by simp
next
  case (Suc n)
  have none: "filter (\<lambda>iv. fst (snd iv) \<le> Suc (hk_clock s)) (intervals s) = []"
    using Suc.prems by (auto simp: filter_empty_conv list_all_iff)
  have same: "intervals (hook_tick s) = intervals s"
    unfolding hook_tick_intervals using Suc.prems
    by (intro map_idI) (auto simp: list_all_iff)
  have "list_all (\<lambda>iv. hk_clock (hook_tick s) + n < fst (snd iv)) (intervals (hook_tick s))"
    using Suc.prems same by (simp add: list_all_iff)
  from Suc.IH [OF this] same none show ?case
    by (simp add: hook_tick_sent)
qed

text \<open>A single interval fires when it falls due and is set again one period later.\<close>

lemma hook_elapse_fires:
  assumes iv: "intervals s = [(i, D, P)]" and lt: "hk_clock s < D"
  shows "intervals (hook_elapse (D - hk_clock s) s) = [(i, D + P, P)]"
    and "sent (hook_elapse (D - hk_clock s) s)
          = sent s @ (if sock_connected s then [(D, Ping)] else [])"
proof -
  obtain m where m: "D - hk_clock s = Suc m" using lt by (cases "D - hk_clock s") auto
  then have D: "D = Suc (hk_clock s + m)" using lt by simp
  have idle: "intervals (hook_elapse m s) = intervals s \<and> sent (hook_elapse m s) = sent s"
    using iv D by (intro hook_elapse_idle) simp
  show "intervals (hook_elapse (D - hk_clock s) s) = [(i, D + P, P)]"
    unfolding m hook_elapse_Suc_right using idle iv D by (simp add: hook_tick_intervals)
  show "sent (hook_elapse (D - hk_clock s) s)
          = sent s @ (if sock_connected s then [(D, Ping)] else [])"
    unfolding m hook_elapse_Suc_right using idle iv D by (simp add: hook_tick_sent)
qed

text \<open>
  What does hold of the heartbeat. After the connect listener has run, one interval is
  alive, due 30000 ms later; it sends a ping then and is set for 30000 ms after that.
  After the disconnect listener or the cleanup has run on a reachable state, no interval
  is alive, and passing time sends nothing.
\<close>

lemma heartbeat_after_connect:
  assumes "hook_inv s" "listening s"
  shows "intervals (hook_step Connect s) = [(hk_next_timer s, hk_clock s + 30000, 30000)]"
    and "pings_of (hook_elapse 30000 (hook_step Connect s)) = pings_of s @ [hk_clock s + 30000]"
    and "intervals (hook_elapse 30000 (hook_step Connect s))
          = [(hk_next_timer s, hk_clock s + 60000, 30000)]"
    and "n < 30000 \<Longrightarrow> pings_of (hook_elapse n (hook_step Connect s)) = pings_of s"
proof -
  define s' where "s' = hook_step Connect s"
  have none': "pingIntervalRef s = None \<Longrightarrow> intervals s = []"
    using assms(1) by (cases "intervals s") (auto simp: hook_inv_def)
  have none: "filter (\<lambda>iv. fst iv \<noteq> i) (intervals s) = []" if "pingIntervalRef s = Some i" for i
    using assms(1) that by (auto simp: hook_inv_def list_all_iff filter_empty_conv)
  show iv: "intervals (hook_step Connect s) = [(hk_next_timer s, hk_clock s + 30000, 30000)]"
    using assms(2) none' none
    by (auto simp: onConnect_def with_projectId_def joinProject_def send_def setInterval_def
        clearTimer_def Let_def split: option.split)
  have c: "hk_clock s' = hk_clock s" "sock_connected s'"
    and p: "pings_of s' = pings_of s"
    using assms(2)
    by (auto simp: s'_def onConnect_def with_projectId_def joinProject_def send_def
        setInterval_def clearTimer_def pings_of_def Let_def split: option.split)
  have iv': "intervals s' = [(hk_next_timer s, hk_clock s' + 30000, 30000)]"
    using iv c by (simp add: s'_def)
  have lt: "hk_clock s' < hk_clock s' + 30000" by simp
  note f = hook_elapse_fires [OF iv' lt]
  show "pings_of (hook_elapse 30000 (hook_step Connect s)) = pings_of s @ [hk_clock s + 30000]"
    using f(2) c p by (simp add: pings_of_def s'_def)
  show "intervals (hook_elapse 30000 (hook_step Connect s))
          = [(hk_next_timer s, hk_clock s + 60000, 30000)]"
    using f(1) c by (simp add: s'_def)
  show "pings_of (hook_elapse n (hook_step Connect s)) = pings_of s" if "n < 30000"
  proof -
    have "list_all (\<lambda>iv. hk_clock s' + n < fst (snd iv)) (intervals s')"
      using iv' that by simp
    from hook_elapse_idle [OF this] p show ?thesis
      by (simp add: pings_of_def s'_def)
  qed
qed

lemma heartbeat_stopped:
  assumes "hook_inv s" "listening s"
  shows "intervals (hook_step (Disconnect reason) s) = []"
    and "intervals (hook_step EffectCleanup s) = []"
    and "pings_of (hook_elapse n (hook_step (Disconnect reason) s)) = pings_of s"
proof -
  have none': "pingIntervalRef s = None \<Longrightarrow> intervals s = []"
    using assms(1) by (cases "intervals s") (auto simp: hook_inv_def)
  have none: "filter (\<lambda>iv. fst iv \<noteq> i) (intervals s) = []" if "pingIntervalRef s = Some i" for i
    using assms(1) that by (auto simp: hook_inv_def list_all_iff filter_empty_conv)
  show d: "intervals (hook_step (Disconnect reason) s) = []"
    using assms(2) none none'
    by (auto simp: onDisconnect_def clearTimer_def Let_def split: option.split)
  show "intervals (hook_step EffectCleanup s) = []"
    using assms none none'
    by (auto simp: effect_cleanup_def hook_inv_def with_projectId_def leaveProject_def send_def
        clearTimer_def Let_def split: option.split)
  have "sent (hook_step (Disconnect reason) s) = sent s"
    using assms(2) by (simp add: onDisconnect_def clearTimer_def Let_def split: option.split)
  then show "pings_of (hook_elapse n (hook_step (Disconnect reason) s)) = pings_of s"
    using hook_elapse_no_intervals [OF d, of n] by (simp add: pings_of_def)
qed

lemma isConnected_pings [simp]:
  "isConnected (fold (\<lambda>iv. pingCallback) due s) = isConnected s"
  by (induction due arbitrary: s) (simp_all add: pingCallback_def send_def)

lemma isConnected_tick [simp]: "isConnected (hook_tick s) = isConnected s"
  by (simp add: hook_tick_def Let_def)

lemma isConnected_elapse [simp]: "isConnected (hook_elapse n s) = isConnected s"
  by (induction n arbitrary: s) simp_all

text \<open>
  C7. The connection effect is cleaned up and run again while the socket stays connected
  (the session object or the project id changed, or the component was mounted anew on
  the shared socket). The cleanup clears the interval; the new run registers the
  listeners on a socket that is already connected, so no connect event follows and no
  interval is set. One ping was sent at 30000 ms; in the 60000 ms after the second run
  the socket is connected, the hook says so, and no ping is sent.
\<close>

theorem C7_no_heartbeat_after_rerun:
  "pings_of (hook_run remount_trace (hook_init (Some ''proj-1'') False)) = [30000]
   \<and> hk_clock (hook_run remount_trace (hook_init (Some ''proj-1'') False)) = 90000
   \<and> sock_connected (hook_run remount_trace (hook_init (Some ''proj-1'') False))
   \<and> isConnected (hook_run remount_trace (hook_init (Some ''proj-1'') False))
   \<and> listening (hook_run remount_trace (hook_init (Some ''proj-1'') False))
   \<and> intervals (hook_run remount_trace (hook_init (Some ''proj-1'') False)) = []"
proof -
  define s1 where "s1 = hook_elapse 30000 settled_hook"
  define s2 where "s2 = hook_step EffectCleanup s1"
  define s3 where "s3 = hook_step EffectRun s2"
  have iv0: "intervals settled_hook = [(1, 30000, 30000)]" and c0: "hk_clock settled_hook < 30000"
    by (simp_all add: settled_hook_eq)
  have f: "intervals s1 = [(1, 60000, 30000)]"
    "sent s1 = [(0, JoinProject ''proj-1''), (30000, Ping)]"
    using hook_elapse_fires [OF iv0 c0] by (simp_all add: s1_def settled_hook_eq)
  have g: "listening s1" "sock_connected s1" "pingIntervalRef s1 = Some 1"
    "reconnectTimeoutRef s1 = None" "opt_projectId s1 = Some ''proj-1''" "hk_clock s1 = 30000"
    by (simp_all add: s1_def settled_hook_eq)
  have h2: "intervals s2 = []" "sock_connected s2" "\<not> listening s2" "hk_clock s2 = 30000"
    "sent s2 = [(0, JoinProject ''proj-1''), (30000, Ping), (30000, LeaveProject ''proj-1'')]"
    using f g
    by (simp_all add: s2_def effect_cleanup_def with_projectId_def leaveProject_def send_def
        clearTimer_def Let_def)
  have h3: "intervals s3 = []" "sock_connected s3" "listening s3" "isConnected s3"
    "hk_clock s3 = 30000" "sent s3 = sent s2"
    using h2 by (simp_all add: s3_def effect_run_def)
  have e: "intervals (hook_elapse 60000 s3) = [] \<and> sent (hook_elapse 60000 s3) = sent s3"
    by (rule hook_elapse_no_intervals [OF h3(1)])
  have run: "hook_run remount_trace (hook_init (Some ''proj-1'') False) = hook_elapse 60000 s3"
    by (simp add: remount_trace_def hook_run_Cons hook_run_Nil s3_def s2_def s1_def
        settled_hook_def del: hook_step.simps)
      (simp add: hook_run_def)
  show ?thesis
    unfolding run using e h3 h2 by (simp add: pings_of_def)
qed

section \<open>The event relay\<close>

lemma distinct_step:
  "distinct (members reg r) \<Longrightarrow> distinct (members (reg_step op reg) r)"
  by (cases op)
    (auto simp: members_def join_def leave_def leaveAll_def without_def distinct_removeAll
      split: option.splits)

lemma distinct_fold:
  "(\<And>r. distinct (members reg r)) \<Longrightarrow> distinct (members (fold reg_step ops reg) r)"
  by (induction ops arbitrary: reg r) (simp_all add: distinct_step)

lemma distinct_members: "distinct (members (reg_run ops) r)"
  unfolding reg_run_def by (rule distinct_fold) (simp add: members_def)

lemma received_one:
  assumes "distinct ms"
  shows "map snd (filter (\<lambda>d. fst d = c') (map (\<lambda>x. (x, ev)) (filter (\<lambda>x. x \<noteq> c) ms)))
         = (if c' \<in> set ms \<and> c' \<noteq> c then [ev] else [])"
  using assms by (induction ms) auto

text \<open>
  C1. In any registry built by joins, leaves and disconnects: when a member \<open>c\<close> of the
  event's room sends an event, every other member of that room receives that very event
  once, and \<open>c\<close> and every connection outside the room receive nothing.
\<close>

theorem C1_relay_to_room_peers:
  assumes "c \<in> set (members (reg_run ops) (ev_projectId ev))"
  shows "received c' (relay (reg_run ops) c ev)
           = (if c' \<in> set (members (reg_run ops) (ev_projectId ev)) \<and> c' \<noteq> c then [ev] else [])"
  using assms received_one [OF distinct_members, of c' ev c ops "ev_projectId ev"]
  by (simp add: received_def relay_def)

lemma demo_members: "members (reg_run demo_ops) ''proj-1'' = [''A'', ''B'']"
  by (simp add: reg_run_def demo_ops_def members_def join_def leave_def without_def)

theorem C1_witness:
  "''A'' \<in> set (members (reg_run demo_ops) (ev_projectId demo_event))
   \<and> received ''B'' (relay (reg_run demo_ops) ''A'' demo_event) = [demo_event]
   \<and> received ''A'' (relay (reg_run demo_ops) ''A'' demo_event) = []
   \<and> received ''C'' (relay (reg_run demo_ops) ''A'' demo_event) = []"
proof -
  have p: "ev_projectId demo_event = ''proj-1''" by (simp add: demo_event_def)
  have a: "''A'' \<in> set (members (reg_run demo_ops) (ev_projectId demo_event))"
    by (simp add: p demo_members)
  show ?thesis
    using a C1_relay_to_room_peers [OF a, of "''B''"] C1_relay_to_room_peers [OF a, of "''A''"]
      C1_relay_to_room_peers [OF a, of "''C''"]
    by (simp add: p demo_members)
qed

end
